theory Spec2Isabelle
  imports Complex_Main "HOL-Library.AList"
begin

section \<open>Data model of the granular engine\<close>

text \<open>
  JavaScript numbers are modelled as real numbers: rounding, overflow to Infinity and
  NaN are outside the model. A JavaScript truthiness test on a number \<open>x\<close> is
  \<open>x \<noteq> 0\<close>. Every call of \<open>Math.random()\<close> reads the next element of a stream
  \<open>rnd :: nat \<Rightarrow> real\<close>; the engine state counts the draws made so far.
\<close>

record GlobalParams =
  chaos :: real
  space :: real
  outputGain :: real
  masterBpm :: real
  beatSync :: bool

datatype LfoTarget = LfoNone | LfoPosition | LfoGrainSize | LfoDensity | LfoPitch | LfoVolume

record GranularParams =
  grainSize :: real
  grainDensity :: real
  position :: real
  randomPitch :: real
  lfoRate :: real
  lfoDepth :: real
  volume :: "real option"  \<comment> \<open>\<open>None\<close> is \<open>undefined\<close>\<close>
  lfoTarget :: LfoTarget

record OrbVisuals =
  vis_x :: real
  vis_y :: real
  radius :: real
  colorHsl :: string

text \<open>Of an \<open>AudioBuffer\<close> the engine reads the duration, the length and the sample rate.\<close>

record AudioBuffer =
  duration :: real
  buf_length :: nat
  sampleRate :: real

record AudioOrb =
  orb_id :: string
  name :: string
  buffer :: "AudioBuffer option"  \<comment> \<open>\<open>None\<close>: not decoded yet (\<open>!orb.buffer\<close>)\<close>
  params :: GranularParams
  visuals :: OrbVisuals
  detectedBpm :: "real option"

datatype GlitchMode = NONE | STUTTER | REVERSE | PITCH_JUMP

record GlitchState =
  active :: bool
  endTime :: real
  mode :: GlitchMode
  frozenOffset :: real

text \<open>
  A voice is what \<open>scheduleGrain\<close> hands to the audio backend: the buffer source with its
  playback rate, the start time and offset of \<open>source.start\<close>, the stop time, the pan and
  the peak of the envelope.
\<close>

record Voice =
  voiceOrb :: string
  startTime :: real
  startOffset :: real
  voiceRate :: real
  voiceGrainSize :: real
  stopTime :: real
  panAmount :: real
  peakGain :: real

text \<open>The smoothed targets that \<open>updateGlobalParams\<close> programs on the mix graph.\<close>

record MixTargets =
  masterGainTarget :: real
  delayTimeTarget :: real
  delaySendTarget :: real
  feedbackTarget :: real

record Engine =
  orbs :: "(string \<times> AudioOrb) list"  \<comment> \<open>a \<open>Map\<close>, in insertion order\<close>
  globalParams :: GlobalParams
  glitchState :: GlitchState
  nextGrainTime :: "string \<rightharpoonup> real"
  mixTargets :: MixTargets
  rng :: nat  \<comment> \<open>number of \<open>Math.random()\<close> draws so far\<close>
  voices :: "Voice list"  \<comment> \<open>voices started so far, oldest first\<close>

definition scheduleAheadTime :: real where
  "scheduleAheadTime = 0.1"

section \<open>Numeric helpers of the grain synthesizer\<close>

text \<open>The floating-point remainder \<open>a % d\<close> of JavaScript: the quotient is truncated
  towards zero, so the result has the sign of \<open>a\<close>.\<close>

definition trunc :: "real \<Rightarrow> int" where
  "trunc x = (if 0 \<le> x then \<lfloor>x\<rfloor> else \<lceil>x\<rceil>)"

definition js_rem :: "real \<Rightarrow> real \<Rightarrow> real" where
  "js_rem a d = a - d * of_int (trunc (a / d))"

text \<open>\<open>offset = offset % duration; if (offset < 0) offset += duration\<close>. The
  duration of a decoded buffer is positive (with a duration of 0, \<open>%\<close> gives NaN, which
  the model does not have).\<close>

definition wrapOffset :: "real \<Rightarrow> real \<Rightarrow> real" where
  "wrapOffset offset dur =
     (let offset1 = js_rem offset dur
      in if offset1 < 0 then offset1 + dur else offset1)"

text \<open>The two clamp statements on the playback rate; \<open>Math.sign\<close> is \<open>sgn\<close>.\<close>

definition clampRate :: "real \<Rightarrow> real" where
  "clampRate playbackRate =
     (let r1 = (if \<bar>playbackRate\<bar> < 0.05 then 0.05 * sgn playbackRate else playbackRate)
      in if \<bar>r1\<bar> > 4.0 then 4.0 * sgn r1 else r1)"

text \<open>The beat-sync pitch ratio: \<open>while (ratio > 1.5) ratio /= 2\<close>, then
  \<open>while (ratio < 0.75) ratio *= 2\<close>. A loop that does not end has the value \<open>None\<close>.\<close>

partial_function (option) halveRatio :: "real \<Rightarrow> real option" where
  "halveRatio ratio = (if ratio > 1.5 then halveRatio (ratio / 2) else Some ratio)"

partial_function (option) doubleRatio :: "real \<Rightarrow> real option" where
  "doubleRatio ratio = (if ratio < 0.75 then doubleRatio (ratio * 2) else Some ratio)"

definition foldRatio :: "real \<Rightarrow> real \<Rightarrow> real option" where
  "foldRatio master detected =
     Option.bind (halveRatio (master / detected)) doubleRatio"

text \<open>The free-run interval between two grains, before jitter.\<close>

definition freeRunInterval :: "real \<Rightarrow> real" where
  "freeRunInterval effectiveDensity =
     (let density = max 0.01 (min 1.0 effectiveDensity);
          minInterval = 0.01;
          maxInterval = 0.5
      in maxInterval - sqrt density * (maxInterval - minInterval))"

section \<open>The grain synthesizer\<close>

text \<open>\<open>scheduleGrain\<close>, in the order of its statements.\<close>

text \<open>The \<open>switch\<close> on \<open>lfoTarget\<close> changes one of four variables; each is given here
  after the switch. \<open>volume\<close> defaults to 1 when undefined, \<open>playbackRate\<close> starts at 1.\<close>

definition lfoPosition :: "GranularParams \<Rightarrow> real \<Rightarrow> real" where
  "lfoPosition p lfoVal =
     (if lfoTarget p = LfoPosition then position p + lfoVal * 0.5 else position p)"

definition lfoGrainSize :: "GranularParams \<Rightarrow> real \<Rightarrow> real" where
  "lfoGrainSize p lfoVal =
     (if lfoTarget p = LfoGrainSize then grainSize p + lfoVal * 0.2 else grainSize p)"

definition lfoVolume :: "GranularParams \<Rightarrow> real \<Rightarrow> real" where
  "lfoVolume p lfoVal =
     (let vol = (case volume p of Some v \<Rightarrow> v | None \<Rightarrow> 1.0)
      in if lfoTarget p = LfoVolume then vol + lfoVal else vol)"

definition lfoPlaybackRate :: "GranularParams \<Rightarrow> real \<Rightarrow> real" where
  "lfoPlaybackRate p lfoVal = (if lfoTarget p = LfoPitch then 1.0 + lfoVal else 1.0)"

text \<open>\<open>if (beatSync && orb.detectedBpm) { ... playbackRate *= ratio }\<close>\<close>

definition beatSyncPitch :: "GlobalParams \<Rightarrow> AudioOrb \<Rightarrow> real \<Rightarrow> real option" where
  "beatSyncPitch gp orb playbackRate =
     (case detectedBpm orb of
        None \<Rightarrow> Some playbackRate
      | Some detected \<Rightarrow>
          if beatSync gp \<and> detected \<noteq> 0
          then Option.bind (foldRatio (masterBpm gp) detected)
                 (\<lambda>ratio. Some (playbackRate * ratio))
          else Some playbackRate)"

text \<open>The glitch modifications of the rate (with the draw of PITCH_JUMP) and of the
  grain size.\<close>

definition glitchRate :: "(nat \<Rightarrow> real) \<Rightarrow> GlitchState \<Rightarrow> nat \<Rightarrow> real \<Rightarrow> real \<times> nat" where
  "glitchRate rnd gs k playbackRate =
     (if active gs then
        (if mode gs = REVERSE then (playbackRate * - 1, k)
         else if mode gs = PITCH_JUMP then
           (let jump = (if rnd k > 0.5 then 2.0 else 0.5)
            in (playbackRate * jump, Suc k))
         else (playbackRate, k))
      else (playbackRate, k))"

definition glitchGrainSize :: "GlitchState \<Rightarrow> real \<Rightarrow> real" where
  "glitchGrainSize gs gsize = (if active gs \<and> mode gs = STUTTER then 0.05 else gsize)"

text \<open>The scan offset: frozen during a STUTTER burst, jittered otherwise. The result is
  the offset before wrapping, the glitch state and the number of draws.\<close>

definition freezePosition ::
  "(nat \<Rightarrow> real) \<Rightarrow> GlitchState \<Rightarrow> nat \<Rightarrow> real \<Rightarrow> real \<times> GlitchState \<times> nat" where
  "freezePosition rnd gs k offset =
     (if active gs \<and> mode gs = STUTTER then
        (if frozenOffset gs < 0 then (offset, gs\<lparr>frozenOffset := offset\<rparr>, k)
         else (frozenOffset gs, gs, k))
      else
        (let posJitter = (rnd k - 0.5) * 0.05
         in (offset + posJitter, gs, Suc k)))"

text \<open>Everything \<open>scheduleGrain\<close> does after the beat-sync ratio. The envelope is kept as
  its peak gain and its length: the fallback to two linear ramps has the same peak and
  the same end.\<close>

definition startVoice ::
  "(nat \<Rightarrow> real) \<Rightarrow> AudioOrb \<Rightarrow> AudioBuffer \<Rightarrow> real \<Rightarrow> real \<Rightarrow> real \<Rightarrow> Engine \<Rightarrow> Engine" where
  "startVoice rnd orb buf time lfoVal playbackRate1 e =
     (let p = params orb;
          gs = glitchState e;
          (playbackRate2, k1) = glitchRate rnd gs (rng e) playbackRate1;
          grainSize1 = glitchGrainSize gs (lfoGrainSize p lfoVal);
          offset0 = lfoPosition p lfoVal * duration buf;
          (offset1, gs1, k2) = freezePosition rnd gs k1 offset0;
          offset2 = wrapOffset offset1 (duration buf);
          grainSize2 = max 0.01 grainSize1;
          pan = (rnd k2 - 0.5) * 2 * space (globalParams e);
          randomCents = (rnd (Suc k2) - 0.5) * randomPitch p * 2400;
          randomRateMult = 2 powr (randomCents / 1200);
          playbackRate3 = clampRate (playbackRate2 * randomRateMult);
          v = \<lparr>voiceOrb = orb_id orb, startTime = time, startOffset = offset2,
               voiceRate = playbackRate3, voiceGrainSize = grainSize2,
               stopTime = time + grainSize2 + 0.05, panAmount = pan,
               peakGain = max 0 (lfoVolume p lfoVal)\<rparr>
      in e\<lparr>glitchState := gs1, rng := Suc (Suc k2), voices := voices e @ [v]\<rparr>)"

definition scheduleGrain ::
  "(nat \<Rightarrow> real) \<Rightarrow> AudioOrb \<Rightarrow> real \<Rightarrow> real \<Rightarrow> Engine \<Rightarrow> Engine option" where
  "scheduleGrain rnd orb time lfoVal e =
     (case buffer orb of
        None \<Rightarrow> Some e
      | Some buf \<Rightarrow>
          Option.bind
            (beatSyncPitch (globalParams e) orb (lfoPlaybackRate (params orb) lfoVal))
            (\<lambda>playbackRate1. Some (startVoice rnd orb buf time lfoVal playbackRate1 e)))"

section \<open>The lookahead scheduler\<close>

text \<open>\<open>scheduler\<close>, in the order of its statements: the glitch state machine, then for
  every orb the start cursor, the \<open>while\<close> loop and the stored cursor.\<close>

text \<open>The glitch state machine at the start of a tick. \<open>&&\<close> short-circuits: the
  probability draw is made only when no burst is active.\<close>

definition glitchUpdate :: "(nat \<Rightarrow> real) \<Rightarrow> real \<Rightarrow> Engine \<Rightarrow> Engine" where
  "glitchUpdate rnd currentTime e =
     (let gp = globalParams e;
          gs0 = glitchState e;
          k = rng e;
          (gs1, k1) =
            (if chaos gp > 0.05 then
               (if active gs0 then (gs0, k)
                else if rnd k < chaos gp * 0.05 then
                  (let burst = 0.1 + rnd (Suc k) * 0.2;
                       r = rnd (Suc (Suc k));
                       m = (if r < 0.33 then STUTTER
                            else if r < 0.66 then REVERSE else PITCH_JUMP)
                   in (\<lparr>active = True, endTime = currentTime + burst, mode = m,
                        frozenOffset = - 1\<rparr>, Suc (Suc (Suc k))))
                else (gs0, Suc k))
             else (gs0, k));
          gs2 = (if active gs1 \<and> currentTime > endTime gs1
                 then gs1\<lparr>active := False, mode := NONE, frozenOffset := - 1\<rparr>
                 else gs1)
      in e\<lparr>glitchState := gs2, rng := k1\<rparr>)"

text \<open>The beat-synchronous LFO frequency: the nearest of the eight multiples of the
  quarter-note frequency. \<open>minDist = Infinity\<close> is \<open>None\<close>.\<close>

definition snapLfo :: "real \<Rightarrow> real \<Rightarrow> real" where
  "snapLfo master lfoFreq =
     (let bpm = (if master = 0 then 120 else master);
          quarterNoteHz = bpm / 60;
          ratios = [0.125, 0.25, 0.5, 1.0, 1.5, 2.0, 3.0, 4.0]
      in fst (fold
           (\<lambda>r (closestFreq, minDist).
              let targetFreq = quarterNoteHz * r;
                  dist = \<bar>targetFreq - lfoFreq\<bar>
              in if (case minDist of None \<Rightarrow> True | Some m \<Rightarrow> dist < m)
                 then (targetFreq, Some dist) else (closestFreq, minDist))
           ratios (lfoFreq, None)))"

definition subdivisionOf :: "real \<Rightarrow> real" where
  "subdivisionOf effectiveDensity =
     (let d = max 0 (min 1 effectiveDensity)
      in if d < 0.25 then 1.0 else if d < 0.5 then 0.5
         else if d < 0.75 then 0.25 else 0.125)"

text \<open>The next-time calculation: the new cursor and the number of draws.\<close>

definition advanceCursor ::
  "(nat \<Rightarrow> real) \<Rightarrow> GlobalParams \<Rightarrow> GlitchState \<Rightarrow> real \<Rightarrow> nat \<Rightarrow> real \<Rightarrow> real \<times> nat" where
  "advanceCursor rnd gp gs effectiveDensity k nextTime =
     (if active gs \<and> mode gs = STUTTER then (nextTime + 0.05, k)
      else if beatSync gp then
        (let bpm = (if masterBpm gp = 0 then 120 else masterBpm gp);
             beatDur = 60 / bpm;
             interval = beatDur * subdivisionOf effectiveDensity;
             humanJitter = (rnd k - 0.5) * interval * 0.05
         in (nextTime + (interval + humanJitter), Suc k))
      else
        (let interval = freeRunInterval effectiveDensity;
             jitter = (rnd k - 0.5) * 0.01
         in (nextTime + max 0.005 (interval + jitter), Suc k)))"

text \<open>One turn of the \<open>while\<close> loop of an orb: the LFO, the grain, the new cursor.\<close>

definition grainStep ::
  "(nat \<Rightarrow> real) \<Rightarrow> AudioOrb \<Rightarrow> real \<Rightarrow> Engine \<Rightarrow> (real \<times> Engine) option" where
  "grainStep rnd orb nextTime e =
     (let p = params orb;
          gp = globalParams e;
          lfoFreq = (if beatSync gp then snapLfo (masterBpm gp) (lfoRate p) else lfoRate p);
          lfoVal = sin (nextTime * lfoFreq * 2 * pi) * lfoDepth p;
          density0 = (if lfoTarget p = LfoDensity then grainDensity p + lfoVal
                      else grainDensity p);
          effectiveDensity =
            (if active (glitchState e) \<and> mode (glitchState e) = STUTTER then 1.0
             else density0)
      in Option.bind (scheduleGrain rnd orb nextTime lfoVal e)
           (\<lambda>e1. let (t, k) = advanceCursor rnd gp (glitchState e1) effectiveDensity
                                (rng e1) nextTime
                 in Some (t, e1\<lparr>rng := k\<rparr>)))"

partial_function (option) grainLoop ::
  "(nat \<Rightarrow> real) \<Rightarrow> AudioOrb \<Rightarrow> real \<Rightarrow> real \<times> Engine \<Rightarrow> (real \<times> Engine) option" where
  "grainLoop rnd orb currentTime st =
     (if fst st < currentTime + scheduleAheadTime
      then Option.bind (grainStep rnd orb (fst st) (snd st)) (grainLoop rnd orb currentTime)
      else Some st)"

text \<open>The cursor an orb starts a tick with: \<open>get(id) || currentTime\<close>, not behind
  \<open>currentTime\<close>.\<close>

definition startCursor :: "Engine \<Rightarrow> string \<Rightarrow> real \<Rightarrow> real" where
  "startCursor e ident currentTime =
     (let nextTime = (case nextGrainTime e ident of
                        None \<Rightarrow> currentTime
                      | Some t \<Rightarrow> if t = 0 then currentTime else t)
      in if nextTime < currentTime then currentTime else nextTime)"

fun orbsForEach ::
  "(nat \<Rightarrow> real) \<Rightarrow> real \<Rightarrow> (string \<times> AudioOrb) list \<Rightarrow> Engine \<Rightarrow> Engine option" where
  "orbsForEach rnd currentTime [] e = Some e"
| "orbsForEach rnd currentTime ((ident, orb) # rest) e =
     Option.bind (grainLoop rnd orb currentTime (startCursor e ident currentTime, e))
       (\<lambda>st. orbsForEach rnd currentTime rest
               ((snd st)\<lparr>nextGrainTime := (nextGrainTime (snd st))(ident \<mapsto> fst st)\<rparr>))"

definition scheduler :: "(nat \<Rightarrow> real) \<Rightarrow> real \<Rightarrow> Engine \<Rightarrow> Engine option" where
  "scheduler rnd currentTime e =
     (let e1 = glitchUpdate rnd currentTime e
      in orbsForEach rnd currentTime (orbs e1) e1)"

section \<open>The engine facade\<close>

text \<open>\<open>Map.set\<close> keeps the place of a key that is present and appends a new one, as
  \<open>AList.update\<close> does.\<close>

definition updateOrbs :: "AudioOrb list \<Rightarrow> Engine \<Rightarrow> Engine" where
  "updateOrbs orbsList e =
     e\<lparr>orbs := fold (\<lambda>orb m. AList.update (orb_id orb) orb m) orbsList []\<rparr>"

definition updateGlobalParams :: "GlobalParams \<Rightarrow> Engine \<Rightarrow> Engine" where
  "updateGlobalParams ps e =
     e\<lparr>globalParams := ps,
       mixTargets :=
         \<lparr>masterGainTarget = outputGain ps,
          delayTimeTarget = (if beatSync ps then 60 / masterBpm ps * 0.75 else 0.5),
          delaySendTarget = space ps,
          feedbackTarget = min 0.7 (space ps * 0.8)\<rparr>\<rparr>"

text \<open>The engine as the constructor leaves it.\<close>

definition newEngine :: Engine where
  "newEngine =
     \<lparr>orbs = [],
      globalParams = \<lparr>chaos = 0.0, space = 0.3, outputGain = 1.0, masterBpm = 120,
                       beatSync = False\<rparr>,
      glitchState = \<lparr>active = False, endTime = 0, mode = NONE, frozenOffset = - 1\<rparr>,
      nextGrainTime = Map.empty,
      mixTargets = \<lparr>masterGainTarget = 1.0, delayTimeTarget = 0, delaySendTarget = 1,
                     feedbackTarget = 1\<rparr>,
      rng = 0,
      voices = []\<rparr>"

text \<open>What happens to a running engine: a tick of the scheduler at a clock time, or a
  call of the facade.\<close>

datatype Event = Tick real | UpdateOrbs "AudioOrb list" | UpdateGlobalParams GlobalParams

fun applyEvent :: "(nat \<Rightarrow> real) \<Rightarrow> Event \<Rightarrow> Engine \<Rightarrow> Engine option" where
  "applyEvent rnd (Tick currentTime) e = scheduler rnd currentTime e"
| "applyEvent rnd (UpdateOrbs orbsList) e = Some (updateOrbs orbsList e)"
| "applyEvent rnd (UpdateGlobalParams ps) e = Some (updateGlobalParams ps e)"

fun run :: "(nat \<Rightarrow> real) \<Rightarrow> Event list \<Rightarrow> Engine \<Rightarrow> Engine option" where
  "run rnd [] e = Some e"
| "run rnd (ev # evs) e = Option.bind (applyEvent rnd ev e) (run rnd evs)"

section \<open>The tempo estimator\<close>

text \<open>The offline render through the lowpass filter is a parameter: it gives the
  rendered samples or throws.\<close>

datatype RenderError = RenderError

text \<open>The peak loop over \<open>data\<close> from index \<open>i\<close> on; \<open>peaks\<close> is in increasing order.\<close>

fun findPeaks :: "real \<Rightarrow> real \<Rightarrow> real list \<Rightarrow> nat \<Rightarrow> nat list \<Rightarrow> nat list" where
  "findPeaks threshold minDistance [] i peaks = peaks"
| "findPeaks threshold minDistance (x # xs) i peaks =
     findPeaks threshold minDistance xs (Suc i)
       (if x > threshold \<and> (peaks = [] \<or> real i - real (last peaks) > minDistance)
        then peaks @ [i] else peaks)"

fun peakIntervals :: "nat list \<Rightarrow> int list" where
  "peakIntervals (a # b # rest) = (int b - int a) # peakIntervals (b # rest)"
| "peakIntervals _ = []"

text \<open>The histogram object, as the list of its keys and counts in the order of
  \<open>for ... in\<close>: integer keys in increasing order.\<close>

fun histAdd :: "int \<Rightarrow> (int \<times> nat) list \<Rightarrow> (int \<times> nat) list" where
  "histAdd rounded [] = [(rounded, 1)]"
| "histAdd rounded ((key, c) # h) =
     (if rounded = key then (key, c + 1) # h
      else if rounded < key then (rounded, 1) # (key, c) # h
      else (key, c) # histAdd rounded h)"

definition buildHistogram :: "int list \<Rightarrow> (int \<times> nat) list" where
  "buildHistogram intervals =
     fold (\<lambda>interval h. histAdd (round (real_of_int interval / 1000) * 1000) h) intervals []"

definition bestBucket :: "int \<Rightarrow> (int \<times> nat) list \<Rightarrow> int" where
  "bestBucket first h =
     fst (fold (\<lambda>(key, c) (bestInterval, maxCount).
                  if c > maxCount then (key, c) else (bestInterval, maxCount))
            h (first, 0))"

partial_function (option) doubleBpm :: "real \<Rightarrow> real option" where
  "doubleBpm finalBpm = (if finalBpm < 70 then doubleBpm (finalBpm * 2) else Some finalBpm)"

partial_function (option) halveBpm :: "real \<Rightarrow> real option" where
  "halveBpm finalBpm = (if finalBpm > 180 then halveBpm (finalBpm / 2) else Some finalBpm)"

text \<open>The analysis of the rendered samples. With no interval \<open>bestInterval\<close> is
  \<open>undefined\<close>, which is falsy as 0 is.\<close>

definition analyse :: "real \<Rightarrow> real list \<Rightarrow> real option" where
  "analyse rate data =
     (let threshold = 0.3;
          minDistance = 0.25 * rate;
          peaks = findPeaks threshold minDistance data 0 []
      in if length peaks < 2 then Some 120
         else
           (case peakIntervals peaks of
              [] \<Rightarrow> Some 120
            | first # _ \<Rightarrow>
                (let bestInterval = bestBucket first (buildHistogram (peakIntervals peaks))
                 in if bestInterval = 0 then Some 120
                    else
                      (let bpm = 60 / (real_of_int bestInterval / rate)
                       in Option.bind (doubleBpm bpm) (\<lambda>b1.
                          Option.bind (halveBpm b1) (\<lambda>finalBpm.
                            Some (if round finalBpm = 0 then 120
                                  else real_of_int (round finalBpm))))))))"

definition detectBPM ::
  "(AudioBuffer \<Rightarrow> RenderError + real list) \<Rightarrow> AudioBuffer \<Rightarrow> real option" where
  "detectBPM render buf =
     (case render buf of
        Inl err \<Rightarrow> Some 120
      | Inr data \<Rightarrow> analyse (sampleRate buf) data)"

section \<open>Predicates of the properties\<close>

text \<open>Every draw of \<open>Math.random()\<close> lies in \<open>[0, 1)\<close>.\<close>

definition rndOk :: "(nat \<Rightarrow> real) \<Rightarrow> bool" where
  "rndOk rnd = (\<forall>k. 0 \<le> rnd k \<and> rnd k < 1)"

text \<open>A detected tempo, when there is one, is not negative (\<open>detectBPM\<close> gives one in
  \<open>[70, 180]\<close>).\<close>

definition tempoOk :: "AudioOrb \<Rightarrow> bool" where
  "tempoOk orb = (case detectedBpm orb of None \<Rightarrow> True | Some detected \<Rightarrow> 0 \<le> detected)"

text \<open>The master tempo is positive and every orb has an admissible tempo.\<close>

definition wellFormed :: "Engine \<Rightarrow> bool" where
  "wellFormed e = (0 < masterBpm (globalParams e) \<and> list_all (\<lambda>(ident, orb). tempoOk orb) (orbs e))"

text \<open>What starting a grain leaves as it was: everything but the voices, the number of
  draws and, during a STUTTER burst, the frozen offset.\<close>

definition grainFrame :: "Engine \<Rightarrow> Engine \<Rightarrow> bool" where
  "grainFrame e e' =
     (orbs e' = orbs e \<and> globalParams e' = globalParams e
      \<and> nextGrainTime e' = nextGrainTime e \<and> mixTargets e' = mixTargets e
      \<and> active (glitchState e') = active (glitchState e)
      \<and> mode (glitchState e') = mode (glitchState e)
      \<and> endTime (glitchState e') = endTime (glitchState e)
      \<and> (if active (glitchState e) \<and> mode (glitchState e) = STUTTER then True
         else frozenOffset (glitchState e') = frozenOffset (glitchState e)))"

text \<open>A lower bound of every step of the cursor.\<close>

definition stepFloor :: "GlobalParams \<Rightarrow> real" where
  "stepFloor gp = min 0.005 (60 / masterBpm gp * 0.125 * 0.975)"

text \<open>What a pass over the orbs \<open>os\<close> leaves as it was, and what it does to the cursor
  table.\<close>

definition tickFrame :: "(string \<times> AudioOrb) list \<Rightarrow> Engine \<Rightarrow> Engine \<Rightarrow> bool" where
  "tickFrame os e e' =
     (orbs e' = orbs e \<and> globalParams e' = globalParams e \<and> mixTargets e' = mixTargets e
      \<and> active (glitchState e') = active (glitchState e)
      \<and> mode (glitchState e') = mode (glitchState e)
      \<and> endTime (glitchState e') = endTime (glitchState e)
      \<and> (if active (glitchState e) \<and> mode (glitchState e) = STUTTER then True
         else frozenOffset (glitchState e') = frozenOffset (glitchState e))
      \<and> dom (nextGrainTime e') = dom (nextGrainTime e) \<union> fst ` set os)"

text \<open>The glitch machine is idle.\<close>

definition idle :: "Engine \<Rightarrow> bool" where
  "idle e = (\<not> active (glitchState e) \<and> mode (glitchState e) = NONE)"

text \<open>An event that keeps the chaos parameter at or below the threshold.\<close>

definition calmEvent :: "Event \<Rightarrow> bool" where
  "calmEvent ev = (case ev of UpdateGlobalParams ps \<Rightarrow> chaos ps \<le> 0.05 | _ \<Rightarrow> True)"

text \<open>An event of a well-formed session: the clock is not negative, the tempi are
  admissible, the master tempo is positive.\<close>

definition eventOk :: "Event \<Rightarrow> bool" where
  "eventOk ev =
     (case ev of
        Tick currentTime \<Rightarrow> 0 \<le> currentTime
      | UpdateOrbs orbsList \<Rightarrow> list_all tempoOk orbsList
      | UpdateGlobalParams ps \<Rightarrow> 0 < masterBpm ps)"

text \<open>The start times of the voices of one orb, in the order they were started.\<close>

definition orbTimes :: "string \<Rightarrow> Voice list \<Rightarrow> real list" where
  "orbTimes ident vs = map startTime (filter (\<lambda>v. voiceOrb v = ident) vs)"

text \<open>Every orb is registered under its own id, as \<open>updateOrbs\<close> does.\<close>

definition keysMatch :: "(string \<times> AudioOrb) list \<Rightarrow> bool" where
  "keysMatch os = list_all (\<lambda>(ident, orb). orb_id orb = ident) os"

text \<open>Between two orbs of a tick: every voice started lies before the cursor of its orb,
  and the start times of every orb are strictly increasing.\<close>

definition cursorInv :: "Engine \<Rightarrow> bool" where
  "cursorInv e =
     ((\<forall>v \<in> set (voices e). \<exists>c. nextGrainTime e (voiceOrb v) = Some c \<and> startTime v < c)
      \<and> (\<forall>ident. sorted_wrt (<) (orbTimes ident (voices e))))"

text \<open>Inside the loop of the orb \<open>ident\<close> with the cursor at \<open>t\<close>: the voices of that
  orb lie before \<open>t\<close>.\<close>

definition loopInv :: "string \<Rightarrow> real \<Rightarrow> Engine \<Rightarrow> bool" where
  "loopInv ident t e =
     ((\<forall>v \<in> set (voices e).
         if voiceOrb v = ident then startTime v < t
         else (\<exists>c. nextGrainTime e (voiceOrb v) = Some c \<and> startTime v < c))
      \<and> (\<forall>j. sorted_wrt (<) (orbTimes j (voices e))))"

text \<open>What every event of a well-formed session keeps.\<close>

definition sessionInv :: "Engine \<Rightarrow> bool" where
  "sessionInv e = (wellFormed e \<and> keysMatch (orbs e) \<and> cursorInv e)"

section \<open>Concrete inputs\<close>

definition demoBuffer :: AudioBuffer where
  "demoBuffer = \<lparr>duration = 1, buf_length = 44100, sampleRate = 44100\<rparr>"

definition demoVisuals :: OrbVisuals where
  "demoVisuals = \<lparr>vis_x = 0, vis_y = 0, radius = 60, colorHsl = ''hsl(0, 70%, 60%)''\<rparr>"

text \<open>\<open>DEFAULT_GRANULAR_PARAMS\<close>\<close>

definition defaultParams :: GranularParams where
  "defaultParams =
     \<lparr>grainSize = 0.1, grainDensity = 0.5, position = 0, randomPitch = 0.2, lfoRate = 0.5,
      lfoDepth = 0.0, volume = Some 1.0, lfoTarget = LfoNone\<rparr>"

text \<open>An orb of the lowest density whose LFO, at full depth and 0.5 Hz, modulates the
  pitch.\<close>

definition pitchOrb :: AudioOrb where
  "pitchOrb =
     \<lparr>orb_id = ''a'', name = ''a.wav'', buffer = Some demoBuffer,
      params = defaultParams\<lparr>grainDensity := 0, lfoDepth := 1, lfoTarget := LfoPitch\<rparr>,
      visuals = demoVisuals, detectedBpm = Some 120\<rparr>"

text \<open>An orb with the scan position 0.1 and no random detune whose LFO, at full depth and
  5 Hz, modulates the scan position.\<close>

definition positionOrb :: AudioOrb where
  "positionOrb =
     \<lparr>orb_id = ''a'', name = ''a.wav'', buffer = Some demoBuffer,
      params = defaultParams\<lparr>position := 0.1, randomPitch := 0, lfoRate := 5, lfoDepth := 1,
                 lfoTarget := LfoPosition\<rparr>,
      visuals = demoVisuals, detectedBpm = Some 120\<rparr>"

text \<open>A random source whose every draw is one half.\<close>

definition halves :: "nat \<Rightarrow> real" where
  "halves k = 0.5"

text \<open>An engine at the start of a STUTTER burst that began at time 0.\<close>

definition stutterEngine :: Engine where
  "stutterEngine =
     newEngine\<lparr>globalParams := (globalParams newEngine)\<lparr>chaos := 1\<rparr>,
       glitchState := \<lparr>active = True, endTime = 0.3, mode = STUTTER, frozenOffset = - 1\<rparr>\<rparr>"

text \<open>A render of four silent samples, and a render that throws.\<close>

definition silentRender :: "AudioBuffer \<Rightarrow> RenderError + real list" where
  "silentRender buf = Inr [0, 0, 0, 0]"

definition failingRender :: "AudioBuffer \<Rightarrow> RenderError + real list" where
  "failingRender buf = Inl RenderError"

text \<open>A random source whose every draw is 0.\<close>

definition zeros :: "nat \<Rightarrow> real" where
  "zeros k = 0"

text \<open>A fresh engine with the chaos parameter at 1, the same engine after a tick at
  time 0 has entered a burst, and \<open>stutterEngine\<close> after its burst has ended.\<close>

definition chaosEngine :: Engine where
  "chaosEngine = newEngine\<lparr>globalParams := (globalParams newEngine)\<lparr>chaos := 1\<rparr>\<rparr>"

definition burstEngine :: Engine where
  "burstEngine =
     chaosEngine\<lparr>glitchState := \<lparr>active = True, endTime = 0.1, mode = STUTTER,
                                  frozenOffset = - 1\<rparr>,
       rng := 3\<rparr>"

definition idleEngine :: Engine where
  "idleEngine =
     stutterEngine\<lparr>glitchState := \<lparr>active = False, endTime = 0.3, mode = NONE,
                                   frozenOffset = - 1\<rparr>\<rparr>"

text \<open>A session with the chaos parameter at 0: one orb, two ticks.\<close>

definition calmSession :: "Event list" where
  "calmSession = [UpdateOrbs [pitchOrb], Tick 0, Tick 0.025]"

text \<open>An orb of the lowest density, the voice of its first grain at time 0, the engine
  after that orb was registered and a tick at time 0 has run, and the same engine after
  \<open>updateOrbs([])\<close>.\<close>

definition sparseOrb :: AudioOrb where
  "sparseOrb =
     \<lparr>orb_id = ''a'', name = ''a.wav'', buffer = Some demoBuffer,
      params = defaultParams\<lparr>grainDensity := 0\<rparr>,
      visuals = demoVisuals, detectedBpm = Some 120\<rparr>"

definition sparseVoice :: Voice where
  "sparseVoice =
     \<lparr>voiceOrb = ''a'', startTime = 0, startOffset = 0, voiceRate = 1, voiceGrainSize = 0.1,
      stopTime = 0.15, panAmount = 0, peakGain = 1\<rparr>"

definition playedEngine :: Engine where
  "playedEngine =
     newEngine\<lparr>orbs := [(''a'', sparseOrb)], nextGrainTime := [''a'' \<mapsto> 0.451],
       rng := 4, voices := [sparseVoice]\<rparr>"

definition staleEngine :: Engine where
  "staleEngine = playedEngine\<lparr>orbs := []\<rparr>"

text \<open>A session of the orb of the lowest density: two ticks.\<close>

definition sparseSession :: "Event list" where
  "sparseSession = [UpdateOrbs [sparseOrb], Tick 0, Tick (1 / 2)]"

text \<open>The voice of the grain at time 0.5 and the engine after the second tick of that
  session.\<close>

definition laterVoice :: Voice where
  "laterVoice =
     \<lparr>voiceOrb = ''a'', startTime = 0.5, startOffset = 0, voiceRate = 1, voiceGrainSize = 0.1,
      stopTime = 0.65, panAmount = 0, peakGain = 1\<rparr>"

definition replayedEngine :: Engine where
  "replayedEngine =
     playedEngine\<lparr>nextGrainTime := [''a'' \<mapsto> 0.951], rng := 8,
       voices := [sparseVoice, laterVoice]\<rparr>"

text \<open>The voice of the grain of \<open>pitchOrb\<close> at time 1.5 and the engine after a tick at
  that time.\<close>

definition stalledVoice :: Voice where
  "stalledVoice =
     \<lparr>voiceOrb = ''a'', startTime = 3 / 2, startOffset = 0, voiceRate = 0, voiceGrainSize = 0.1,
      stopTime = 1.65, panAmount = 0, peakGain = 1\<rparr>"

definition stalledEngine :: Engine where
  "stalledEngine =
     newEngine\<lparr>orbs := [(''a'', pitchOrb)], nextGrainTime := [''a'' \<mapsto> 1.951],
       rng := 4, voices := [stalledVoice]\<rparr>"

text \<open>Global parameters with the chaos parameter at 1; the engine after
  \<open>updateGlobalParams\<close> with them and \<open>updateOrbs([positionOrb])\<close>; that engine after the
  glitch state machine of a tick at time 0.15 has entered a STUTTER burst; the two voices
  of that tick; and the engine after the first grain, after the second and after the
  tick.\<close>

definition chaosParams :: GlobalParams where
  "chaosParams = \<lparr>chaos = 1, space = 0.3, outputGain = 1, masterBpm = 120, beatSync = False\<rparr>"

definition armedEngine :: Engine where
  "armedEngine =
     newEngine\<lparr>orbs := [(''a'', positionOrb)], globalParams := chaosParams,
       mixTargets := \<lparr>masterGainTarget = 1, delayTimeTarget = 0.5, delaySendTarget = 0.3,
                       feedbackTarget = 0.24\<rparr>\<rparr>"

definition burstStart :: Engine where
  "burstStart =
     armedEngine\<lparr>glitchState := \<lparr>active = True, endTime = 0.25, mode = STUTTER,
                                  frozenOffset = - 1\<rparr>,
       rng := 3\<rparr>"

definition firstStutterVoice :: Voice where
  "firstStutterVoice =
     \<lparr>voiceOrb = ''a'', startTime = 0.15, startOffset = 0.6, voiceRate = 1,
      voiceGrainSize = 0.05, stopTime = 0.25, panAmount = - 0.3, peakGain = 1\<rparr>"

definition secondStutterVoice :: Voice where
  "secondStutterVoice =
     \<lparr>voiceOrb = ''a'', startTime = 0.2, startOffset = 0.1, voiceRate = 1,
      voiceGrainSize = 0.05, stopTime = 0.3, panAmount = - 0.3, peakGain = 1\<rparr>"

definition afterFirstStutter :: Engine where
  "afterFirstStutter =
     burstStart\<lparr>glitchState := (glitchState burstStart)\<lparr>frozenOffset := - (2 / 5)\<rparr>,
       rng := 5, voices := [firstStutterVoice]\<rparr>"

definition afterSecondStutter :: Engine where
  "afterSecondStutter =
     burstStart\<lparr>glitchState := (glitchState burstStart)\<lparr>frozenOffset := 1 / 10\<rparr>,
       rng := 7, voices := [firstStutterVoice, secondStutterVoice]\<rparr>"

definition stutterTickEngine :: Engine where
  "stutterTickEngine = afterSecondStutter\<lparr>nextGrainTime := [''a'' \<mapsto> 1 / 4]\<rparr>"

text \<open>Two renders of two clicks, 12000 and 40000 samples apart, with silence between
  them.\<close>

definition clickRender :: "AudioBuffer \<Rightarrow> RenderError + real list" where
  "clickRender buf = Inr (1 # replicate 11999 0 @ [1])"

definition slowClickRender :: "AudioBuffer \<Rightarrow> RenderError + real list" where
  "slowClickRender buf = Inr (1 # replicate 39999 0 @ [1])"

section \<open>The free-run interval\<close>

lemma freeRunInterval_eq:
  "0.01 \<le> d \<Longrightarrow> d \<le> 1 \<Longrightarrow> freeRunInterval d = 0.5 - sqrt d * (0.5 - 0.01)"
  by (simp add: freeRunInterval_def Let_def max_def min_def)

lemma sqrt_hundredth: "sqrt (0.01 :: real) = 0.1"
  by (rule real_sqrt_unique) (simp_all add: power2_eq_square)

lemma sqrt_density_bounds:
  assumes "0.01 \<le> d" "d \<le> 1"
  shows "0.1 \<le> sqrt d" "sqrt d \<le> 1"
proof -
  have "sqrt 0.01 \<le> sqrt d" using assms(1) by (simp only: real_sqrt_le_iff)
  then show "0.1 \<le> sqrt d" by (simp only: sqrt_hundredth)
  have "sqrt d \<le> sqrt 1" using assms(2) by (simp only: real_sqrt_le_iff)
  then show "sqrt d \<le> 1" by simp
qed

lemma interval_line:
  fixes s :: real
  assumes "0.1 \<le> s" "s \<le> 1"
  shows "0.01 \<le> 0.5 - s * (0.5 - 0.01)" and "0.5 - s * (0.5 - 0.01) \<le> 0.5"
  using assms by simp_all

lemma interval_line_less:
  fixes s1 s2 :: real
  assumes "s1 < s2"
  shows "0.5 - s2 * (0.5 - 0.01) < 0.5 - s1 * (0.5 - 0.01)"
  using assms by simp

lemma freeRunInterval_bounds:
  assumes "0.01 \<le> d" "d \<le> 1"
  shows "0.01 \<le> freeRunInterval d" and "freeRunInterval d \<le> 0.5"
  unfolding freeRunInterval_eq [OF assms]
  using interval_line [OF sqrt_density_bounds [OF assms]] by simp_all

lemma freeRunInterval_less:
  assumes "0.01 \<le> d1" "d1 < d2" "d2 \<le> 1"
  shows "freeRunInterval d2 < freeRunInterval d1"
proof -
  have r1: "0.01 \<le> d1" "d1 \<le> 1" and r2: "0.01 \<le> d2" "d2 \<le> 1"
    using assms by simp_all
  have "sqrt d1 < sqrt d2"
    using assms(2) by (simp only: real_sqrt_less_iff)
  then show ?thesis
    unfolding freeRunInterval_eq [OF r1] freeRunInterval_eq [OF r2]
    by (rule interval_line_less)
qed

text \<open>In the free-run branch the cursor moves by that interval plus the jitter, and by
  0.005 at least.\<close>

lemma advanceCursor_free_run:
  assumes "\<not> (active gs \<and> mode gs = STUTTER)" "\<not> beatSync gp"
  shows "fst (advanceCursor rnd gp gs d k t)
           = t + max 0.005 (freeRunInterval d + (rnd k - 0.5) * 0.01)"
  using assms by (auto simp: advanceCursor_def Let_def)

text \<open>
  C4. In the free-run branch the interval before jitter, as a function of a density
  \<open>d\<close> in \<open>[0.01, 1]\<close>, is \<open>0.5 - sqrt d * (0.5 - 0.01)\<close>; it lies in \<open>[0.01, 0.5]\<close>
  and is strictly decreasing in \<open>d\<close>.
\<close>

theorem freeRunInterval_decreasing_bounded:
  "(\<forall>d. 0.01 \<le> d \<and> d \<le> 1 \<longrightarrow>
       freeRunInterval d = 0.5 - sqrt d * (0.5 - 0.01)
       \<and> 0.01 \<le> freeRunInterval d \<and> freeRunInterval d \<le> 0.5)
   \<and> (\<forall>d1 d2. 0.01 \<le> d1 \<and> d1 < d2 \<and> d2 \<le> 1 \<longrightarrow>
         freeRunInterval d2 < freeRunInterval d1)"
  using freeRunInterval_eq freeRunInterval_bounds freeRunInterval_less by blast

theorem freeRunInterval_decreasing_bounded_witness:
  "(0.01 :: real) \<le> 0.01 \<and> (0.01 :: real) < 1 \<and> (1 :: real) \<le> 1
   \<and> freeRunInterval 1 = 0.5 - sqrt 1 * (0.5 - 0.01)
   \<and> 0.01 \<le> freeRunInterval 1 \<and> freeRunInterval 1 \<le> 0.5
   \<and> freeRunInterval 1 < freeRunInterval 0.01"
proof -
  have h: "(0.01 :: real) \<le> 0.01 \<and> (0.01 :: real) < 1 \<and> (1 :: real) \<le> 1"
    by simp
  have one: "(0.01 :: real) \<le> 1 \<and> (1 :: real) \<le> 1"
    by simp
  note at_one = freeRunInterval_decreasing_bounded [THEN conjunct1, rule_format, OF one]
  note less = freeRunInterval_decreasing_bounded [THEN conjunct2, rule_format, OF h]
  from h at_one less show ?thesis
    by (intro conjI) simp_all
qed

section \<open>The beat-sync pitch ratio\<close>

lemma halveRatio_steps:
  "r \<le> 1.5 * 2 ^ n \<Longrightarrow>
     \<exists>y. halveRatio r = Some y \<and> (if r \<le> 1.5 then y = r else 0.75 < y \<and> y \<le> 1.5)"
proof (induction n arbitrary: r)
  case 0
  then show ?case by (subst halveRatio.simps) simp
next
  case (Suc n)
  show ?case
  proof (cases "r > 1.5")
    case False
    then show ?thesis by (subst halveRatio.simps) simp
  next
    case True
    have "r / 2 \<le> 1.5 * 2 ^ n" using Suc.prems by simp
    from Suc.IH [OF this] obtain y where
      y: "halveRatio (r / 2) = Some y" "if r / 2 \<le> 1.5 then y = r / 2 else 0.75 < y \<and> y \<le> 1.5"
      by blast
    have "halveRatio r = Some y" using True y(1) by (subst halveRatio.simps) simp
    moreover have "0.75 < y \<and> y \<le> 1.5" using True y(2) by (auto split: if_splits)
    ultimately show ?thesis using True by simp
  qed
qed

lemma halveRatio_spec:
  "\<exists>y. halveRatio r = Some y \<and> (if r \<le> 1.5 then y = r else 0.75 < y \<and> y \<le> 1.5)"
proof -
  obtain n where "r / 1.5 < 2 ^ n"
    using real_arch_pow [of 2 "r / 1.5"] by auto
  then have "r \<le> 1.5 * 2 ^ n"
    by (simp add: field_simps)
  then show ?thesis by (rule halveRatio_steps)
qed

lemma doubleRatio_steps:
  "0 < r \<Longrightarrow> 0.75 \<le> r * 2 ^ n \<Longrightarrow>
     \<exists>y. doubleRatio r = Some y \<and> (if 0.75 \<le> r then y = r else 0.75 \<le> y \<and> y < 1.5)"
proof (induction n arbitrary: r)
  case 0
  then show ?case by (subst doubleRatio.simps) simp
next
  case (Suc n)
  show ?case
  proof (cases "r < 0.75")
    case False
    then show ?thesis by (subst doubleRatio.simps) simp
  next
    case True
    have "0 < r * 2" "0.75 \<le> r * 2 * 2 ^ n" using Suc.prems by (simp_all add: mult.assoc)
    from Suc.IH [OF this] obtain y where
      y: "doubleRatio (r * 2) = Some y" "if 0.75 \<le> r * 2 then y = r * 2 else 0.75 \<le> y \<and> y < 1.5"
      by blast
    have "doubleRatio r = Some y" using True y(1) by (subst doubleRatio.simps) simp
    moreover have "0.75 \<le> y \<and> y < 1.5" using True y(2) by (auto split: if_splits)
    ultimately show ?thesis using True by simp
  qed
qed

lemma doubleRatio_spec:
  assumes "0 < r"
  shows "\<exists>y. doubleRatio r = Some y \<and> (if 0.75 \<le> r then y = r else 0.75 \<le> y \<and> y < 1.5)"
proof -
  obtain n where "0.75 / r < 2 ^ n"
    using real_arch_pow [of 2 "0.75 / r"] by auto
  then have "0.75 \<le> r * 2 ^ n"
    using assms by (simp add: field_simps)
  with assms show ?thesis by (rule doubleRatio_steps)
qed

lemma foldRatio_returns:
  assumes "0 < master" "0 < detected"
  shows "\<exists>ratio. foldRatio master detected = Some ratio \<and> 0.75 \<le> ratio \<and> ratio \<le> 1.5"
proof -
  obtain y where y: "halveRatio (master / detected) = Some y"
    "if master / detected \<le> 1.5 then y = master / detected else 0.75 < y \<and> y \<le> 1.5"
    using halveRatio_spec by blast
  have ypos: "0 < y" and yle: "y \<le> 1.5"
    using y(2) assms by (auto split: if_splits)
  obtain z where z: "doubleRatio y = Some z"
    "if 0.75 \<le> y then z = y else 0.75 \<le> z \<and> z < 1.5"
    using doubleRatio_spec [OF ypos] by blast
  have "foldRatio master detected = Some z"
    by (simp add: foldRatio_def y(1) z(1))
  moreover have "0.75 \<le> z \<and> z \<le> 1.5"
    using z(2) yle by (auto split: if_splits)
  ultimately show ?thesis by blast
qed

text \<open>
  C7. For a positive master tempo and a positive detected tempo the two folding loops
  of the beat-sync ratio end, and the ratio multiplied into the playback rate lies in
  \<open>[0.75, 1.5]\<close>.
\<close>

theorem foldRatio_terminates_in_range:
  assumes "0 < master" "0 < detected"
  shows "\<exists>ratio. foldRatio master detected = Some ratio \<and> 0.75 \<le> ratio \<and> ratio \<le> 1.5"
  using assms by (rule foldRatio_returns)

theorem foldRatio_terminates_in_range_witness:
  "(0 :: real) < 120 \<and> (0 :: real) < 30
   \<and> (\<exists>ratio. foldRatio 120 30 = Some ratio \<and> 0.75 \<le> ratio \<and> ratio \<le> 1.5)"
proof -
  have h: "(0 :: real) < 120" "(0 :: real) < 30"
    by simp_all
  from h foldRatio_terminates_in_range [OF h] show ?thesis
    by blast
qed

section \<open>The clamp of the playback rate\<close>

lemma clampRate_upper: "\<bar>clampRate r\<bar> \<le> 4"
  by (auto simp: clampRate_def Let_def sgn_real_def abs_real_def split: if_splits)

lemma clampRate_range:
  assumes "r \<noteq> 0"
  shows "0.05 \<le> \<bar>clampRate r\<bar>" "\<bar>clampRate r\<bar> \<le> 4" "sgn (clampRate r) = sgn r"
  using assms
  by (auto simp: clampRate_def Let_def sgn_real_def abs_real_def split: if_splits)

lemma glitchRate_nonzero: "r \<noteq> 0 \<Longrightarrow> fst (glitchRate rnd gs k r) \<noteq> 0"
  by (simp add: glitchRate_def Let_def)

lemma startVoice_rate:
  "\<exists>x. voiceRate (last (voices (startVoice rnd orb buf time lfoVal r e)))
        = clampRate (fst (glitchRate rnd (glitchState e) (rng e) r) * 2 powr x)"
  by (simp add: startVoice_def Let_def split_beta) blast

lemma startVoice_rate_range:
  assumes "r \<noteq> 0"
  shows "0.05 \<le> \<bar>voiceRate (last (voices (startVoice rnd orb buf time lfoVal r e)))\<bar>"
    and "\<bar>voiceRate (last (voices (startVoice rnd orb buf time lfoVal r e)))\<bar> \<le> 4"
proof -
  obtain x where m:
    "voiceRate (last (voices (startVoice rnd orb buf time lfoVal r e)))
        = clampRate (fst (glitchRate rnd (glitchState e) (rng e) r) * 2 powr x)"
    using startVoice_rate by blast
  have "fst (glitchRate rnd (glitchState e) (rng e) r) * 2 powr x \<noteq> 0"
    using glitchRate_nonzero [OF assms] by simp
  from clampRate_range(1,2) [OF this]
  show "0.05 \<le> \<bar>voiceRate (last (voices (startVoice rnd orb buf time lfoVal r e)))\<bar>"
    and "\<bar>voiceRate (last (voices (startVoice rnd orb buf time lfoVal r e)))\<bar> \<le> 4"
    by (simp_all add: m)
qed

section \<open>The frozen offset of a STUTTER burst\<close>

text \<open>A recorded offset that is not negative is reused by every later grain of the burst,
  and the glitch state stays as it is.\<close>

lemma freezePosition_reuse:
  assumes "active gs" "mode gs = STUTTER" "0 \<le> frozenOffset gs"
  shows "freezePosition rnd gs k offset = (frozenOffset gs, gs, k)"
  using assms by (simp add: freezePosition_def)

lemma startVoice_frozen:
  assumes "active (glitchState e)" "mode (glitchState e) = STUTTER"
    and "0 \<le> frozenOffset (glitchState e)"
  shows "glitchState (startVoice rnd orb buf time lfoVal r e) = glitchState e"
    and "startOffset (last (voices (startVoice rnd orb buf time lfoVal r e)))
           = wrapOffset (frozenOffset (glitchState e)) (duration buf)"
  using assms
  by (simp_all add: startVoice_def Let_def split_beta freezePosition_reuse glitchRate_def)

section \<open>The tempo estimator never fails and stays in range\<close>

lemma doubleBpm_steps:
  "0 < b \<Longrightarrow> 70 \<le> b * 2 ^ n \<Longrightarrow>
     \<exists>y. doubleBpm b = Some y \<and> (if 70 \<le> b then y = b else 70 \<le> y \<and> y < 140)"
proof (induction n arbitrary: b)
  case 0
  then show ?case by (subst doubleBpm.simps) simp
next
  case (Suc n)
  show ?case
  proof (cases "b < 70")
    case False
    then show ?thesis by (subst doubleBpm.simps) simp
  next
    case True
    have "0 < b * 2" "70 \<le> b * 2 * 2 ^ n" using Suc.prems by (simp_all add: mult.assoc)
    from Suc.IH [OF this] obtain y where
      y: "doubleBpm (b * 2) = Some y" "if 70 \<le> b * 2 then y = b * 2 else 70 \<le> y \<and> y < 140"
      by blast
    have "doubleBpm b = Some y" using True y(1) by (subst doubleBpm.simps) simp
    moreover have "70 \<le> y \<and> y < 140" using True y(2) by (auto split: if_splits)
    ultimately show ?thesis using True by simp
  qed
qed

lemma doubleBpm_spec:
  assumes "0 < b"
  shows "\<exists>y. doubleBpm b = Some y \<and> (if 70 \<le> b then y = b else 70 \<le> y \<and> y < 140)"
proof -
  obtain n where "70 / b < 2 ^ n"
    using real_arch_pow [of 2 "70 / b"] by auto
  then have "70 \<le> b * 2 ^ n"
    using assms by (simp add: field_simps)
  with assms show ?thesis by (rule doubleBpm_steps)
qed

lemma halveBpm_steps:
  "b \<le> 180 * 2 ^ n \<Longrightarrow>
     \<exists>y. halveBpm b = Some y \<and> (if b \<le> 180 then y = b else 90 < y \<and> y \<le> 180)"
proof (induction n arbitrary: b)
  case 0
  then show ?case by (subst halveBpm.simps) simp
next
  case (Suc n)
  show ?case
  proof (cases "b > 180")
    case False
    then show ?thesis by (subst halveBpm.simps) simp
  next
    case True
    have "b / 2 \<le> 180 * 2 ^ n" using Suc.prems by simp
    from Suc.IH [OF this] obtain y where
      y: "halveBpm (b / 2) = Some y" "if b / 2 \<le> 180 then y = b / 2 else 90 < y \<and> y \<le> 180"
      by blast
    have "halveBpm b = Some y" using True y(1) by (subst halveBpm.simps) simp
    moreover have "90 < y \<and> y \<le> 180" using True y(2) by (auto split: if_splits)
    ultimately show ?thesis using True by simp
  qed
qed

lemma halveBpm_spec:
  "\<exists>y. halveBpm b = Some y \<and> (if b \<le> 180 then y = b else 90 < y \<and> y \<le> 180)"
proof -
  obtain n where "b / 180 < 2 ^ n"
    using real_arch_pow [of 2 "b / 180"] by auto
  then have "b \<le> 180 * 2 ^ n"
    by (simp add: field_simps)
  then show ?thesis by (rule halveBpm_steps)
qed

text \<open>The two loops one after the other, and the rounding.\<close>

lemma foldBpm_spec:
  assumes "0 < bpm"
  shows "\<exists>n :: int.
     Option.bind (doubleBpm bpm) (\<lambda>b1. Option.bind (halveBpm b1) (\<lambda>finalBpm.
        Some (if round finalBpm = 0 then 120 else real_of_int (round finalBpm))))
       = Some (real_of_int n) \<and> 70 \<le> n \<and> n \<le> 180"
proof -
  obtain b1 where b1: "doubleBpm bpm = Some b1" "if 70 \<le> bpm then b1 = bpm else 70 \<le> b1 \<and> b1 < 140"
    using doubleBpm_spec [OF assms] by blast
  have b1ge: "70 \<le> b1" using b1(2) by (auto split: if_splits)
  obtain f where f: "halveBpm b1 = Some f" "if b1 \<le> 180 then f = b1 else 90 < f \<and> f \<le> 180"
    using halveBpm_spec by blast
  have fr: "70 \<le> f" "f \<le> 180" using f(2) b1ge by (auto split: if_splits)
  have "70 \<le> round f" using fr(1) unfolding round_def by linarith
  moreover have "round f \<le> 180" using fr(2) unfolding round_def by linarith
  ultimately show ?thesis
    by (intro exI [of _ "round f"]) (simp add: b1(1) f(1))
qed

text \<open>The peaks are in increasing order, so every interval is positive.\<close>

lemma findPeaks_sorted:
  "sorted_wrt (<) peaks \<Longrightarrow> \<forall>p \<in> set peaks. p < i \<Longrightarrow>
     sorted_wrt (<) (findPeaks threshold minDistance data i peaks)"
proof (induction data arbitrary: i peaks)
  case Nil
  then show ?case by simp
next
  case (Cons x xs)
  let ?peaks = "if x > threshold \<and> (peaks = [] \<or> real i - real (last peaks) > minDistance)
        then peaks @ [i] else peaks"
  have "sorted_wrt (<) ?peaks" using Cons.prems by (simp add: sorted_wrt_append)
  moreover have "\<forall>p \<in> set ?peaks. p < Suc i" using Cons.prems by (auto simp: less_Suc_eq)
  ultimately have "sorted_wrt (<) (findPeaks threshold minDistance xs (Suc i) ?peaks)"
    by (rule Cons.IH)
  then show ?case by simp
qed

lemma peakIntervals_positive:
  "sorted_wrt (<) peaks \<Longrightarrow> \<forall>d \<in> set (peakIntervals peaks). 0 < d"
  by (induction peaks rule: peakIntervals.induct) auto

lemma histAdd_keys: "fst ` set (histAdd rounded h) = insert rounded (fst ` set h)"
  by (induction rounded h rule: histAdd.induct) auto

lemma fold_histAdd_keys:
  "fst ` set (fold (\<lambda>interval h. histAdd (f interval) h) intervals h0)
     = f ` set intervals \<union> fst ` set h0"
  by (induction intervals arbitrary: h0) (auto simp: histAdd_keys)

lemma buildHistogram_keys:
  "fst ` set (buildHistogram intervals)
     = (\<lambda>interval. round (real_of_int interval / 1000) * 1000) ` set intervals"
  by (simp add: buildHistogram_def fold_histAdd_keys)

lemma bestBucket_fold:
  "fst (fold (\<lambda>(key, c) (bestInterval, maxCount).
                  if c > maxCount then (key, c) else (bestInterval, maxCount)) h acc)
     \<in> insert (fst acc) (fst ` set h)"
proof (induction h arbitrary: acc)
  case Nil
  then show ?case by simp
next
  case (Cons kc h)
  show ?case
    using Cons.IH [of "(case kc of (key, c) \<Rightarrow> \<lambda>(bestInterval, maxCount).
                  if c > maxCount then (key, c) else (bestInterval, maxCount)) acc"]
    by (auto split: prod.splits if_splits)
qed

lemma bestBucket_mem: "bestBucket first h \<in> insert first (fst ` set h)"
  using bestBucket_fold [of h "(first, 0)"] by (simp add: bestBucket_def)

lemma bucket_nonneg:
  assumes "0 < d"
  shows "0 \<le> round (real_of_int d / 1000) * 1000"
proof -
  have "0 \<le> round (real_of_int d / 1000)"
    using assms unfolding round_def by (simp add: zero_le_floor)
  then show ?thesis by simp
qed

lemma analyse_unfold:
  "analyse rate data =
     (if length (findPeaks 0.3 (0.25 * rate) data 0 []) < 2 then Some 120
      else
        (case peakIntervals (findPeaks 0.3 (0.25 * rate) data 0 []) of
           [] \<Rightarrow> Some 120
         | first # _ \<Rightarrow>
             (if bestBucket first
                   (buildHistogram (peakIntervals (findPeaks 0.3 (0.25 * rate) data 0 []))) = 0
              then Some 120
              else
                Option.bind
                  (doubleBpm (60 / (real_of_int (bestBucket first
                     (buildHistogram (peakIntervals (findPeaks 0.3 (0.25 * rate) data 0 []))))
                     / rate)))
                  (\<lambda>b1. Option.bind (halveBpm b1) (\<lambda>finalBpm.
                     Some (if round finalBpm = 0 then 120
                           else real_of_int (round finalBpm)))))))"
  by (simp only: analyse_def Let_def)

lemma analyse_spec:
  assumes "0 < rate"
  shows "\<exists>n :: int. analyse rate data = Some (real_of_int n) \<and> 70 \<le> n \<and> n \<le> 180"
proof -
  define peaks where "peaks = findPeaks 0.3 (0.25 * rate) data 0 []"
  have sorted: "sorted_wrt (<) peaks"
    unfolding peaks_def by (rule findPeaks_sorted) simp_all
  have pos: "\<forall>d \<in> set (peakIntervals peaks). 0 < d"
    using sorted by (rule peakIntervals_positive)
  have default: "\<exists>n :: int. Some (120 :: real) = Some (real_of_int n) \<and> 70 \<le> n \<and> n \<le> 180"
    by (intro exI [of _ 120]) simp
  note unfold = analyse_unfold [of rate data, folded peaks_def]
  show ?thesis
  proof (cases "length peaks < 2")
    case True
    then show ?thesis using default by (simp only: unfold if_True)
  next
    case long: False
    show ?thesis
    proof (cases "peakIntervals peaks")
      case Nil
      then show ?thesis using default long by (simp only: unfold if_False list.case)
    next
      case (Cons first rest)
      define best where "best = bestBucket first (buildHistogram (peakIntervals peaks))"
      have "best \<in> insert first (fst ` set (buildHistogram (peakIntervals peaks)))"
        unfolding best_def by (rule bestBucket_mem)
      moreover have "0 < first" using pos Cons by simp
      ultimately have nonneg: "0 \<le> best"
        using pos bucket_nonneg by (auto simp: buildHistogram_keys)
      have eq: "analyse rate data =
         (if best = 0 then Some 120
          else Option.bind (doubleBpm (60 / (real_of_int best / rate)))
                  (\<lambda>b1. Option.bind (halveBpm b1) (\<lambda>finalBpm.
                     Some (if round finalBpm = 0 then 120
                           else real_of_int (round finalBpm)))))"
        using long by (simp only: unfold if_False Cons [symmetric] best_def) (simp only: Cons list.case)
      show ?thesis
      proof (cases "best = 0")
        case True
        then show ?thesis
          using default by (simp add: eq)
      next
        case False
        then have "0 < best" using nonneg by simp
        then have "0 < 60 / (real_of_int best / rate)" using assms by simp
        from foldBpm_spec [OF this] show ?thesis
          using False by (simp add: eq)
      qed
    qed
  qed
qed

lemma findPeaks_length:
  "length (findPeaks threshold minDistance data i peaks)
     \<le> length peaks + length (filter (\<lambda>x. x > threshold) data)"
proof (induction data arbitrary: i peaks)
  case Nil
  then show ?case by simp
next
  case (Cons x xs)
  show ?case
    using Cons.IH [of "Suc i" "if x > threshold \<and> (peaks = [] \<or> real i - real (last peaks) > minDistance)
        then peaks @ [i] else peaks"]
    by (auto split: if_splits)
qed

text \<open>
  C9. For a buffer with a positive sample rate \<open>detectBPM\<close> returns a number, whatever
  the render gives: 120 when the render throws, 120 when fewer than two peaks are found,
  in particular when fewer than two samples exceed the threshold 0.3.
\<close>

theorem detectBPM_never_fails:
  assumes "0 < sampleRate buf"
  shows "(\<exists>bpm. detectBPM render buf = Some bpm)
       \<and> (\<forall>err. render buf = Inl err \<longrightarrow> detectBPM render buf = Some 120)
       \<and> (\<forall>data. render buf = Inr data
            \<and> length (findPeaks 0.3 (0.25 * sampleRate buf) data 0 []) < 2
            \<longrightarrow> detectBPM render buf = Some 120)
       \<and> (\<forall>data. render buf = Inr data \<and> length (filter (\<lambda>x. x > 0.3) data) < 2
            \<longrightarrow> detectBPM render buf = Some 120)"
proof -
  have total: "\<exists>bpm. detectBPM render buf = Some bpm"
  proof (cases "render buf")
    case (Inl err)
    then show ?thesis by (simp add: detectBPM_def)
  next
    case (Inr data)
    then show ?thesis using analyse_spec [OF assms, of data] by (auto simp: detectBPM_def)
  qed
  have few: "detectBPM render buf = Some 120"
    if "render buf = Inr data" "length (findPeaks 0.3 (0.25 * sampleRate buf) data 0 []) < 2"
    for data
    using that by (simp add: detectBPM_def analyse_def)
  have quiet: "detectBPM render buf = Some 120"
    if "render buf = Inr data" "length (filter (\<lambda>x. x > 0.3) data) < 2" for data
  proof -
    have "length (findPeaks 0.3 (0.25 * sampleRate buf) data 0 []) < 2"
      using findPeaks_length [of "0.3" "0.25 * sampleRate buf" data 0 "[]"] that(2) by simp
    with that(1) show ?thesis by (rule few)
  qed
  show ?thesis
    using total few quiet by (auto simp: detectBPM_def)
qed

theorem detectBPM_never_fails_witness:
  "0 < sampleRate demoBuffer
   \<and> silentRender demoBuffer = Inr [0, 0, 0, 0]
   \<and> length (filter (\<lambda>x. x > 0.3) [0 :: real, 0, 0, 0]) < 2
   \<and> detectBPM silentRender demoBuffer = Some 120"
proof -
  have h: "0 < sampleRate demoBuffer"
    by (simp add: demoBuffer_def)
  have r: "silentRender demoBuffer = Inr [0, 0, 0, 0]"
    by (simp add: silentRender_def)
  have q: "length (filter (\<lambda>x. x > 0.3) [0 :: real, 0, 0, 0]) < 2"
    by simp
  from detectBPM_never_fails [OF h, of silentRender]
  have "\<forall>data. silentRender demoBuffer = Inr data \<and> length (filter (\<lambda>x. x > 0.3) data) < 2
            \<longrightarrow> detectBPM silentRender demoBuffer = Some 120"
    by blast
  with r q have "detectBPM silentRender demoBuffer = Some 120"
    by blast
  with h r q show ?thesis
    by blast
qed

text \<open>
  C10. For a buffer with a positive sample rate the value \<open>detectBPM\<close> returns is an
  integer in \<open>[70, 180]\<close>; the doubling loop takes a positive estimate below 70 into
  \<open>[70, 140)\<close> and the halving loop takes an estimate above 180 into \<open>(90, 180]\<close>.
\<close>

theorem detectBPM_integer_in_range:
  assumes "0 < sampleRate buf"
  shows "(\<exists>n :: int. detectBPM render buf = Some (real_of_int n) \<and> 70 \<le> n \<and> n \<le> 180)
       \<and> (\<forall>b. 0 < b \<and> b < 70 \<longrightarrow> (\<exists>y. doubleBpm b = Some y \<and> 70 \<le> y \<and> y < 140))
       \<and> (\<forall>b. 180 < b \<longrightarrow> (\<exists>y. halveBpm b = Some y \<and> 90 < y \<and> y \<le> 180))"
proof -
  have "\<exists>n :: int. detectBPM render buf = Some (real_of_int n) \<and> 70 \<le> n \<and> n \<le> 180"
  proof (cases "render buf")
    case (Inl err)
    then show ?thesis by (intro exI [of _ 120]) (simp add: detectBPM_def)
  next
    case (Inr data)
    then show ?thesis using analyse_spec [OF assms, of data] by (simp add: detectBPM_def)
  qed
  moreover have "\<exists>y. doubleBpm b = Some y \<and> 70 \<le> y \<and> y < 140" if "0 < b \<and> b < 70" for b
    using doubleBpm_spec [of b] that by auto
  moreover have "\<exists>y. halveBpm b = Some y \<and> 90 < y \<and> y \<le> 180" if "180 < b" for b
    using halveBpm_spec [of b] that by auto
  ultimately show ?thesis by blast
qed

text \<open>Two clicks 12000 samples apart at 44100 Hz: the estimate 220.5 is halved to 110.25
  and rounded to 110. Two clicks 40000 samples apart: the estimate 66.15 is doubled to 132.3
  and rounded to 132.\<close>

lemma findPeaks_quiet:
  "\<not> x > threshold \<Longrightarrow>
     findPeaks threshold minDistance (replicate n x @ rest) i peaks
       = findPeaks threshold minDistance rest (i + n) peaks"
  by (induction n arbitrary: i) simp_all

lemma findPeaks_two_clicks:
  assumes "real n + 1 > minDistance" "threshold < 1" "0 \<le> threshold"
  shows "findPeaks threshold minDistance (1 # replicate n 0 @ [1]) 0 [] = [0, Suc n]"
  using assms by (simp add: findPeaks_quiet)

lemma halveBpm_click: "halveBpm (441 / 2) = Some (441 / 4)"
  apply (subst halveBpm.simps, simp)
  apply (subst halveBpm.simps, simp)
  done

lemma doubleBpm_click: "doubleBpm (441 / 2) = Some (441 / 2)"
  by (subst doubleBpm.simps) simp

lemma round_click: "round (441 / 4 :: real) = 110"
  unfolding round_def by linarith

lemma analyse_click: "analyse 44100 (1 # replicate 11999 0 @ [1]) = Some 110"
proof -
  have p: "findPeaks 0.3 (0.25 * 44100) (1 # replicate 11999 0 @ [1]) 0 [] = [0, 12000]"
    using findPeaks_two_clicks [of 11025 11999 "3 / 10"] by simp
  have r: "round (12 :: real) = 12"
    by simp
  show ?thesis
    unfolding analyse_unfold p
    by (simp add: buildHistogram_def bestBucket_def r doubleBpm_click halveBpm_click
        round_click)
qed

lemma detectBPM_click: "detectBPM clickRender demoBuffer = Some 110"
  by (simp add: detectBPM_def clickRender_def demoBuffer_def analyse_click)

lemma doubleBpm_slow: "doubleBpm (1323 / 20) = Some (1323 / 10)"
  apply (subst doubleBpm.simps, simp)
  apply (subst doubleBpm.simps, simp)
  done

lemma halveBpm_slow: "halveBpm (1323 / 10) = Some (1323 / 10)"
  by (subst halveBpm.simps) simp

lemma round_slow: "round (1323 / 10 :: real) = 132"
  unfolding round_def by linarith

lemma analyse_slow: "analyse 44100 (1 # replicate 39999 0 @ [1]) = Some 132"
proof -
  have p: "findPeaks 0.3 (0.25 * 44100) (1 # replicate 39999 0 @ [1]) 0 [] = [0, 40000]"
    using findPeaks_two_clicks [of 11025 39999 "3 / 10"] by simp
  have r: "round (40 :: real) = 40"
    by simp
  show ?thesis
    unfolding analyse_unfold p
    by (simp add: buildHistogram_def bestBucket_def r doubleBpm_slow halveBpm_slow
        round_slow)
qed

lemma detectBPM_slow: "detectBPM slowClickRender demoBuffer = Some 132"
  by (simp add: detectBPM_def slowClickRender_def demoBuffer_def analyse_slow)

theorem detectBPM_integer_in_range_witness:
  "0 < sampleRate demoBuffer
   \<and> detectBPM clickRender demoBuffer = Some 110
   \<and> detectBPM slowClickRender demoBuffer = Some 132
   \<and> (\<exists>n :: int. detectBPM clickRender demoBuffer = Some (real_of_int n)
         \<and> 70 \<le> n \<and> n \<le> 180)
   \<and> (\<exists>n :: int. detectBPM slowClickRender demoBuffer = Some (real_of_int n)
         \<and> 70 \<le> n \<and> n \<le> 180)
   \<and> (0 :: real) < 20 \<and> (20 :: real) < 70
   \<and> (\<exists>y. doubleBpm 20 = Some y \<and> 70 \<le> y \<and> y < 140)
   \<and> (180 :: real) < 500
   \<and> (\<exists>y. halveBpm 500 = Some y \<and> 90 < y \<and> y \<le> 180)"
proof -
  have h: "0 < sampleRate demoBuffer"
    by (simp add: demoBuffer_def)
  have d: "(0 :: real) < 20 \<and> (20 :: real) < 70" and u: "(180 :: real) < 500"
    by simp_all
  note fast = detectBPM_integer_in_range [OF h, of clickRender]
  note slow = detectBPM_integer_in_range [OF h, of slowClickRender]
  from fast slow d u h detectBPM_click detectBPM_slow show ?thesis
    by blast
qed

section \<open>Frames and progress of the scheduler\<close>

lemma grainFrame_refl: "grainFrame e e"
  by (simp add: grainFrame_def)

lemma grainFrame_trans: "grainFrame e1 e2 \<Longrightarrow> grainFrame e2 e3 \<Longrightarrow> grainFrame e1 e3"
  by (auto simp: grainFrame_def split: if_splits)

lemma freezePosition_glitch:
  "active (fst (snd (freezePosition rnd gs k offset))) = active gs"
  "mode (fst (snd (freezePosition rnd gs k offset))) = mode gs"
  "endTime (fst (snd (freezePosition rnd gs k offset))) = endTime gs"
  "\<not> (active gs \<and> mode gs = STUTTER) \<Longrightarrow>
     frozenOffset (fst (snd (freezePosition rnd gs k offset))) = frozenOffset gs"
  by (auto simp: freezePosition_def Let_def)

lemma startVoice_frame: "grainFrame e (startVoice rnd orb buf time lfoVal r e)"
  by (simp add: grainFrame_def startVoice_def Let_def split_beta freezePosition_glitch)

lemma startVoice_voices:
  "\<exists>v. voices (startVoice rnd orb buf time lfoVal r e) = voices e @ [v]
       \<and> startTime v = time \<and> voiceOrb v = orb_id orb"
  by (simp add: startVoice_def Let_def split_beta)

lemma scheduleGrain_cases:
  assumes "scheduleGrain rnd orb time lfoVal e = Some e'"
  shows "e' = e \<or> (\<exists>buf r. e' = startVoice rnd orb buf time lfoVal r e)"
  using assms
  by (auto simp: scheduleGrain_def split: option.splits Option.bind_splits)

lemma scheduleGrain_frame:
  "scheduleGrain rnd orb time lfoVal e = Some e' \<Longrightarrow> grainFrame e e'"
  using scheduleGrain_cases [of rnd orb time lfoVal e e']
  by (auto simp: grainFrame_refl startVoice_frame)

lemma scheduleGrain_voices:
  assumes "scheduleGrain rnd orb time lfoVal e = Some e'"
  shows "voices e' = voices e
       \<or> (\<exists>v. voices e' = voices e @ [v] \<and> startTime v = time \<and> voiceOrb v = orb_id orb)"
  using scheduleGrain_cases [OF assms] startVoice_voices by blast

lemma beatSyncPitch_total:
  assumes "0 < masterBpm gp" "tempoOk orb"
  shows "\<exists>r. beatSyncPitch gp orb playbackRate = Some r"
proof (cases "detectedBpm orb")
  case None
  then show ?thesis by (simp add: beatSyncPitch_def)
next
  case (Some detected)
  show ?thesis
  proof (cases "beatSync gp \<and> detected \<noteq> 0")
    case False
    then show ?thesis using Some by (auto simp: beatSyncPitch_def)
  next
    case True
    then have "0 < detected" using assms(2) Some by (simp add: tempoOk_def)
    from foldRatio_returns [OF assms(1) this]
    show ?thesis using True Some by (auto simp: beatSyncPitch_def)
  qed
qed

lemma scheduleGrain_total:
  assumes "0 < masterBpm (globalParams e)" "tempoOk orb"
  shows "\<exists>e'. scheduleGrain rnd orb time lfoVal e = Some e'"
proof (cases "buffer orb")
  case None
  then show ?thesis by (simp add: scheduleGrain_def)
next
  case (Some buf)
  obtain r where "beatSyncPitch (globalParams e) orb (lfoPlaybackRate (params orb) lfoVal) = Some r"
    using beatSyncPitch_total [OF assms] by blast
  then show ?thesis using Some by (simp add: scheduleGrain_def)
qed

lemma stepFloor_pos: "0 < masterBpm gp \<Longrightarrow> 0 < stepFloor gp"
  by (simp add: stepFloor_def)

lemma subdivisionOf_ge: "0.125 \<le> subdivisionOf d"
  by (simp add: subdivisionOf_def Let_def)

lemma beat_step:
  fixes r beatDur sub :: real
  assumes "0 \<le> r" "0 < beatDur" "0.125 \<le> sub"
  shows "beatDur * 0.125 * 0.975 \<le> beatDur * sub + (r - 0.5) * (beatDur * sub) * 0.05"
proof -
  define x where "x = beatDur * sub"
  define p where "p = r * x"
  have x: "beatDur * 0.125 \<le> x"
    unfolding x_def using assms by simp
  have "0 \<le> x" using x assms(2) by simp
  then have p: "0 \<le> p"
    unfolding p_def using assms(1) by simp
  have "beatDur * 0.125 * 0.975 \<le> 0.975 * x + 0.05 * p"
    using x p by simp
  also have "\<dots> = x + (r - 0.5) * x * 0.05"
    unfolding p_def by (simp add: algebra_simps)
  finally show ?thesis
    unfolding x_def .
qed

lemma advanceCursor_forward:
  assumes "rndOk rnd" "0 < masterBpm gp"
  shows "nextTime + stepFloor gp \<le> fst (advanceCursor rnd gp gs d k nextTime)"
proof -
  have r: "0 \<le> rnd k" using assms(1) by (simp add: rndOk_def)
  have bd: "0 < 60 / masterBpm gp" using assms(2) by simp
  have beat: "60 / masterBpm gp * 0.125 * 0.975
     \<le> 60 / masterBpm gp * subdivisionOf d
        + (rnd k - 0.5) * (60 / masterBpm gp * subdivisionOf d) * 0.05"
    using r bd subdivisionOf_ge by (rule beat_step)
  show ?thesis
    using beat assms(2) by (auto simp: advanceCursor_def stepFloor_def Let_def)
qed

lemma grainStep_cases:
  assumes "grainStep rnd orb t e = Some (t', e')"
  shows "\<exists>e1 lfoVal d. scheduleGrain rnd orb t lfoVal e = Some e1
           \<and> t' = fst (advanceCursor rnd (globalParams e) (glitchState e1) d (rng e1) t)
           \<and> e' = e1\<lparr>rng := snd (advanceCursor rnd (globalParams e) (glitchState e1) d
                                  (rng e1) t)\<rparr>"
  using assms
  by (simp add: grainStep_def Let_def split_beta split: Option.bind_splits) blast

lemma grainStep_frame:
  assumes "grainStep rnd orb t e = Some (t', e')"
  shows "grainFrame e e'"
proof -
  from grainStep_cases [OF assms] obtain e1 lfoVal k where
    e1: "scheduleGrain rnd orb t lfoVal e = Some e1" and e': "e' = e1\<lparr>rng := k\<rparr>"
    by blast
  have "grainFrame e e1" using e1 by (rule scheduleGrain_frame)
  then show ?thesis by (simp add: grainFrame_def e')
qed

lemma grainStep_voices:
  assumes "grainStep rnd orb t e = Some (t', e')"
  shows "voices e' = voices e
       \<or> (\<exists>v. voices e' = voices e @ [v] \<and> startTime v = t \<and> voiceOrb v = orb_id orb)"
proof -
  from grainStep_cases [OF assms] obtain e1 lfoVal k where
    e1: "scheduleGrain rnd orb t lfoVal e = Some e1" and e': "e' = e1\<lparr>rng := k\<rparr>"
    by blast
  show ?thesis using scheduleGrain_voices [OF e1] by (simp add: e')
qed

lemma grainStep_forward:
  assumes "grainStep rnd orb t e = Some (t', e')" "rndOk rnd" "0 < masterBpm (globalParams e)"
  shows "t + stepFloor (globalParams e) \<le> t'"
  using grainStep_cases [OF assms(1)] advanceCursor_forward [OF assms(2,3)]
  by auto

lemma grainStep_total:
  assumes "0 < masterBpm (globalParams e)" "tempoOk orb"
  shows "\<exists>t' e'. grainStep rnd orb t e = Some (t', e')"
proof -
  obtain e1 where "scheduleGrain rnd orb t
      (sin (t * (if beatSync (globalParams e) then snapLfo (masterBpm (globalParams e)) (lfoRate (params orb)) else lfoRate (params orb)) * 2 * pi) * lfoDepth (params orb)) e = Some e1"
    using scheduleGrain_total [OF assms] by blast
  then show ?thesis
    by (simp add: grainStep_def Let_def split_beta)
qed



lemma grainLoop_invariant_aux:
  assumes step: "\<And>t e t1 e1. I t e \<Longrightarrow> t < ct + scheduleAheadTime \<Longrightarrow>
           grainStep rnd orb t e = Some (t1, e1) \<Longrightarrow> I t1 e1"
    and run: "grainLoop r orb' c st = Some y"
  shows "r = rnd \<longrightarrow> orb' = orb \<longrightarrow> c = ct \<longrightarrow> I (fst st) (snd st) \<longrightarrow>
           I (fst y) (snd y) \<and> \<not> fst y < ct + scheduleAheadTime"
proof (rule grainLoop.raw_induct [where P = "\<lambda>r orb' c st y.
     r = rnd \<longrightarrow> orb' = orb \<longrightarrow> c = ct \<longrightarrow> I (fst st) (snd st) \<longrightarrow>
           I (fst y) (snd y) \<and> \<not> fst y < ct + scheduleAheadTime", OF _ run])
  fix loop r orb' c st y
  assume IH: "\<And>r orb' c st y. loop r orb' c st = Some y \<Longrightarrow>
      r = rnd \<longrightarrow> orb' = orb \<longrightarrow> c = ct \<longrightarrow> I (fst st) (snd st) \<longrightarrow>
           I (fst y) (snd y) \<and> \<not> fst y < ct + scheduleAheadTime"
    and body: "(if fst st < c + scheduleAheadTime
        then Option.bind (grainStep r orb' (fst st) (snd st)) (loop r orb' c)
        else Some st) = Some y"
  show "r = rnd \<longrightarrow> orb' = orb \<longrightarrow> c = ct \<longrightarrow> I (fst st) (snd st) \<longrightarrow>
           I (fst y) (snd y) \<and> \<not> fst y < ct + scheduleAheadTime"
  proof (intro impI)
    assume eqs: "r = rnd" "orb' = orb" "c = ct" and I: "I (fst st) (snd st)"
    show "I (fst y) (snd y) \<and> \<not> fst y < ct + scheduleAheadTime"
    proof (cases "fst st < ct + scheduleAheadTime")
      case False
      then show ?thesis using body I eqs by simp
    next
      case True
      then obtain st1 where st1: "grainStep rnd orb (fst st) (snd st) = Some st1"
        and rest: "loop rnd orb ct st1 = Some y"
        using body eqs by (auto split: Option.bind_splits)
      have "I (fst st1) (snd st1)"
        using step [OF I True, of "fst st1" "snd st1"] st1 by simp
      then show ?thesis
        using IH [OF rest] by simp
    qed
  qed
qed

lemma grainLoop_invariant:
  assumes "grainLoop rnd orb ct (t, e) = Some (t', e')"
    and "I t e"
    and "\<And>t e t1 e1. I t e \<Longrightarrow> t < ct + scheduleAheadTime \<Longrightarrow>
           grainStep rnd orb t e = Some (t1, e1) \<Longrightarrow> I t1 e1"
  shows "I t' e' \<and> \<not> t' < ct + scheduleAheadTime"
  using grainLoop_invariant_aux [of I ct rnd orb rnd orb ct "(t, e)" "(t', e')"] assms
  by auto

lemma grainLoop_total:
  assumes "0 < \<delta>"
    and "\<And>t e. I t e \<Longrightarrow> t < ct + scheduleAheadTime \<Longrightarrow>
           \<exists>t1 e1. grainStep rnd orb t e = Some (t1, e1) \<and> t + \<delta> \<le> t1 \<and> I t1 e1"
    and "I t e"
  shows "\<exists>st. grainLoop rnd orb ct (t, e) = Some st"
  using assms(3)
proof (induction "nat \<lceil>(ct + scheduleAheadTime - t) / \<delta>\<rceil>" arbitrary: t e rule: less_induct)
  case less
  show ?case
  proof (cases "t < ct + scheduleAheadTime")
    case False
    then show ?thesis by (subst grainLoop.simps) simp
  next
    case True
    from assms(2) [OF less.prems True] obtain t1 e1 where
      s: "grainStep rnd orb t e = Some (t1, e1)" "t + \<delta> \<le> t1" "I t1 e1"
      by blast
    have "(ct + scheduleAheadTime - t1) / \<delta> \<le> (ct + scheduleAheadTime - t - \<delta>) / \<delta>"
      using s(2) assms(1) by (intro divide_right_mono) simp_all
    also have "\<dots> = (ct + scheduleAheadTime - t) / \<delta> - 1"
      using assms(1) by (simp add: diff_divide_distrib)
    finally have "(ct + scheduleAheadTime - t1) / \<delta> \<le> (ct + scheduleAheadTime - t) / \<delta> - 1" .
    then have "\<lceil>(ct + scheduleAheadTime - t1) / \<delta>\<rceil> \<le> \<lceil>(ct + scheduleAheadTime - t) / \<delta>\<rceil> - 1"
      by (metis ceiling_diff_one ceiling_mono)
    moreover have "0 < (ct + scheduleAheadTime - t) / \<delta>"
      using True assms(1) by simp
    then have "0 < \<lceil>(ct + scheduleAheadTime - t) / \<delta>\<rceil>"
      by (simp add: ceiling_less_iff)
    ultimately have "nat \<lceil>(ct + scheduleAheadTime - t1) / \<delta>\<rceil>
        < nat \<lceil>(ct + scheduleAheadTime - t) / \<delta>\<rceil>"
      by linarith
    from less.hyps [OF this s(3)] obtain st where "grainLoop rnd orb ct (t1, e1) = Some st"
      by blast
    then show ?thesis
      using True s(1) by (subst grainLoop.simps) simp
  qed
qed

lemma grainLoop_frame:
  assumes "grainLoop rnd orb ct (t, e) = Some (t', e')"
  shows "grainFrame e e'"
proof -
  have "grainFrame e e' \<and> \<not> t' < ct + scheduleAheadTime"
    using assms
  proof (rule grainLoop_invariant [where I = "\<lambda>t1 e1. grainFrame e e1"])
    show "grainFrame e e" by (rule grainFrame_refl)
  next
    fix t0 e0 t1 e1
    assume "grainFrame e e0" "grainStep rnd orb t0 e0 = Some (t1, e1)"
    then show "grainFrame e e1"
      using grainStep_frame grainFrame_trans by blast
  qed
  then show ?thesis by simp
qed

lemma grainLoop_returns:
  assumes "rndOk rnd" "0 < masterBpm (globalParams e)" "tempoOk orb"
  shows "\<exists>st. grainLoop rnd orb ct (t, e) = Some st"
proof (rule grainLoop_total [where I = "\<lambda>t1 (e1 :: Engine). globalParams e1 = globalParams e"
      and \<delta> = "stepFloor (globalParams e)"])
  show "0 < stepFloor (globalParams e)"
    using assms(2) by (rule stepFloor_pos)
next
  show "globalParams e = globalParams e" by simp
next
  fix t0 :: real and e0 :: Engine
  assume same: "globalParams e0 = globalParams e"
  then have pos: "0 < masterBpm (globalParams e0)" using assms(2) by simp
  obtain t1 e1 where step: "grainStep rnd orb t0 e0 = Some (t1, e1)"
    using grainStep_total [OF pos assms(3)] by blast
  have "t0 + stepFloor (globalParams e) \<le> t1"
    using grainStep_forward [OF step assms(1) pos] same by simp
  moreover have "globalParams e1 = globalParams e"
    using grainStep_frame [OF step] same by (simp add: grainFrame_def)
  ultimately show "\<exists>t1 e1. grainStep rnd orb t0 e0 = Some (t1, e1)
      \<and> t0 + stepFloor (globalParams e) \<le> t1 \<and> globalParams e1 = globalParams e"
    using step by blast
qed

lemma orbsForEach_frame:
  "orbsForEach rnd ct os e = Some e' \<Longrightarrow> tickFrame os e e'"
proof (induction os arbitrary: e)
  case Nil
  then show ?case by (simp add: tickFrame_def)
next
  case (Cons io os)
  obtain ident orb where io: "io = (ident, orb)" by (cases io)
  from Cons.prems obtain t1 e1 where
    loop: "grainLoop rnd orb ct (startCursor e ident ct, e) = Some (t1, e1)"
    and rest: "orbsForEach rnd ct os
        (e1\<lparr>nextGrainTime := (nextGrainTime e1)(ident \<mapsto> t1)\<rparr>) = Some e'"
    by (auto simp: io split: Option.bind_splits)
  have f1: "grainFrame e e1" using loop by (rule grainLoop_frame)
  have f2: "tickFrame os (e1\<lparr>nextGrainTime := (nextGrainTime e1)(ident \<mapsto> t1)\<rparr>) e'"
    using rest by (rule Cons.IH)
  show ?case
    using f1 f2 by (auto simp: tickFrame_def grainFrame_def io split: if_splits)
qed

lemma orbsForEach_returns:
  assumes "rndOk rnd"
  shows "0 < masterBpm (globalParams e) \<Longrightarrow> list_all (\<lambda>(ident, orb). tempoOk orb) os \<Longrightarrow>
     \<exists>e'. orbsForEach rnd ct os e = Some e'"
proof (induction os arbitrary: e)
  case Nil
  then show ?case by simp
next
  case (Cons io os)
  obtain ident orb where io: "io = (ident, orb)" by (cases io)
  have ok: "tempoOk orb" and oks: "list_all (\<lambda>(ident, orb). tempoOk orb) os"
    using Cons.prems(2) by (simp_all add: io)
  obtain t1 e1 where
    loop: "grainLoop rnd orb ct (startCursor e ident ct, e) = Some (t1, e1)"
    using grainLoop_returns [OF assms Cons.prems(1) ok] by (metis prod.collapse)
  have "globalParams e1 = globalParams e"
    using grainLoop_frame [OF loop] by (simp add: grainFrame_def)
  then have "0 < masterBpm (globalParams (e1\<lparr>nextGrainTime := (nextGrainTime e1)(ident \<mapsto> t1)\<rparr>))"
    using Cons.prems(1) by simp
  from Cons.IH [OF this oks] show ?case
    using loop by (simp add: io)
qed

section \<open>The glitch state machine\<close>

lemma glitchUpdate_frame:
  "orbs (glitchUpdate rnd ct e) = orbs e"
  "globalParams (glitchUpdate rnd ct e) = globalParams e"
  "nextGrainTime (glitchUpdate rnd ct e) = nextGrainTime e"
  "mixTargets (glitchUpdate rnd ct e) = mixTargets e"
  "voices (glitchUpdate rnd ct e) = voices e"
  by (simp_all add: glitchUpdate_def Let_def split_beta)

lemma glitchUpdate_entry:
  assumes "rndOk rnd" "\<not> active (glitchState e)" "active (glitchState (glitchUpdate rnd ct e))"
  shows "0.1 \<le> endTime (glitchState (glitchUpdate rnd ct e)) - ct"
    and "endTime (glitchState (glitchUpdate rnd ct e)) - ct \<le> 0.3"
    and "mode (glitchState (glitchUpdate rnd ct e)) \<noteq> NONE"
proof -
  have r: "0 \<le> rnd (Suc (rng e))" "rnd (Suc (rng e)) < 1"
    using assms(1) by (simp_all add: rndOk_def)
  show "0.1 \<le> endTime (glitchState (glitchUpdate rnd ct e)) - ct"
    using assms(2,3) r by (auto simp: glitchUpdate_def Let_def split: if_splits)
  show "endTime (glitchState (glitchUpdate rnd ct e)) - ct \<le> 0.3"
    using assms(2,3) r by (auto simp: glitchUpdate_def Let_def split: if_splits)
  show "mode (glitchState (glitchUpdate rnd ct e)) \<noteq> NONE"
    using assms(2,3) by (auto simp: glitchUpdate_def Let_def split: if_splits)
qed

lemma glitchUpdate_expiry:
  assumes "active (glitchState e)" "ct > endTime (glitchState e)"
  shows "glitchState (glitchUpdate rnd ct e)
         = (glitchState e)\<lparr>active := False, mode := NONE, frozenOffset := - 1\<rparr>"
  using assms by (simp add: glitchUpdate_def Let_def)

lemma glitchUpdate_mid_burst:
  assumes "active (glitchState e)" "\<not> ct > endTime (glitchState e)"
  shows "glitchState (glitchUpdate rnd ct e) = glitchState e"
  using assms by (simp add: glitchUpdate_def Let_def)

lemma glitchUpdate_calm:
  assumes "chaos (globalParams e) \<le> 0.05" "\<not> active (glitchState e)"
  shows "glitchState (glitchUpdate rnd ct e) = glitchState e" "rng (glitchUpdate rnd ct e) = rng e"
  using assms by (simp_all add: glitchUpdate_def Let_def)

lemma scheduler_frame:
  assumes "scheduler rnd ct e = Some e'"
  shows "tickFrame (orbs e) (glitchUpdate rnd ct e) e'"
  using assms orbsForEach_frame [of rnd ct "orbs e" "glitchUpdate rnd ct e" e']
  by (simp add: scheduler_def Let_def glitchUpdate_frame)

lemma scheduler_returns:
  assumes "rndOk rnd" "wellFormed e"
  shows "\<exists>e'. scheduler rnd ct e = Some e'"
  using orbsForEach_returns [OF assms(1), of "glitchUpdate rnd ct e" "orbs e" ct] assms(2)
  by (simp add: scheduler_def Let_def glitchUpdate_frame wellFormed_def)

text \<open>
  C5. A tick that enters a burst at time \<open>ct\<close> sets an end time between 0.1 and 0.3
  seconds after \<open>ct\<close> and an active mode; a tick whose time exceeds the end time of
  the running burst leaves the machine idle (not active, mode NONE, frozen offset unset);
  any other tick during a burst keeps the burst, its mode and its end time. A tick of a
  well-formed engine returns.
\<close>

theorem glitch_burst_self_terminates:
  assumes "rndOk rnd"
  shows "(\<forall>e'. scheduler rnd ct e = Some e' \<longrightarrow>
           (\<not> active (glitchState e) \<and> active (glitchState e') \<longrightarrow>
              0.1 \<le> endTime (glitchState e') - ct \<and> endTime (glitchState e') - ct \<le> 0.3
              \<and> mode (glitchState e') \<noteq> NONE)
         \<and> (active (glitchState e) \<and> ct > endTime (glitchState e) \<longrightarrow>
              \<not> active (glitchState e') \<and> mode (glitchState e') = NONE
              \<and> frozenOffset (glitchState e') = - 1)
         \<and> (active (glitchState e) \<and> \<not> ct > endTime (glitchState e) \<longrightarrow>
              active (glitchState e') \<and> mode (glitchState e') = mode (glitchState e)
              \<and> endTime (glitchState e') = endTime (glitchState e)))
       \<and> (wellFormed e \<longrightarrow> (\<exists>e'. scheduler rnd ct e = Some e'))"
proof (intro conjI allI impI)
  fix e'
  assume run: "scheduler rnd ct e = Some e'"
  note frame = scheduler_frame [OF run, unfolded tickFrame_def]
  {
    assume a: "\<not> active (glitchState e) \<and> active (glitchState e')"
    then have act: "active (glitchState (glitchUpdate rnd ct e))" using frame by simp
    from glitchUpdate_entry [OF assms _ act] a
    show "0.1 \<le> endTime (glitchState e') - ct" "endTime (glitchState e') - ct \<le> 0.3"
      "mode (glitchState e') \<noteq> NONE"
      using frame by simp_all
  }
  {
    assume a: "active (glitchState e) \<and> ct > endTime (glitchState e)"
    then have g: "glitchState (glitchUpdate rnd ct e)
         = (glitchState e)\<lparr>active := False, mode := NONE, frozenOffset := - 1\<rparr>"
      by (simp add: glitchUpdate_expiry)
    show "\<not> active (glitchState e')" "mode (glitchState e') = NONE"
      "frozenOffset (glitchState e') = - 1"
      using frame g by simp_all
  }
  {
    assume a: "active (glitchState e) \<and> \<not> ct > endTime (glitchState e)"
    then have g: "glitchState (glitchUpdate rnd ct e) = glitchState e"
      by (simp add: glitchUpdate_mid_burst)
    show "active (glitchState e')" "mode (glitchState e') = mode (glitchState e)"
      "endTime (glitchState e') = endTime (glitchState e)"
      using frame g a by simp_all
  }
next
  assume "wellFormed e"
  with assms show "\<exists>e'. scheduler rnd ct e = Some e'" by (rule scheduler_returns)
qed



lemma rndOk_zeros: "rndOk zeros"
  by (simp add: rndOk_def zeros_def)

lemma rndOk_halves: "rndOk halves"
  by (simp add: rndOk_def halves_def)

lemma scheduler_enters_burst: "scheduler zeros 0 chaosEngine = Some burstEngine"
  by (simp add: scheduler_def glitchUpdate_def Let_def chaosEngine_def burstEngine_def
      newEngine_def zeros_def numeral_3_eq_3)

lemma scheduler_ends_burst: "scheduler zeros 0.35 stutterEngine = Some idleEngine"
  by (simp add: scheduler_def glitchUpdate_def Let_def stutterEngine_def idleEngine_def
      newEngine_def zeros_def)

theorem glitch_burst_self_terminates_witness:
  "rndOk zeros
   \<and> scheduler zeros 0 chaosEngine = Some burstEngine
   \<and> \<not> active (glitchState chaosEngine) \<and> active (glitchState burstEngine)
   \<and> 0.1 \<le> endTime (glitchState burstEngine) - 0
   \<and> endTime (glitchState burstEngine) - 0 \<le> 0.3
   \<and> mode (glitchState burstEngine) \<noteq> NONE
   \<and> scheduler zeros 0.35 stutterEngine = Some idleEngine
   \<and> active (glitchState stutterEngine) \<and> 0.35 > endTime (glitchState stutterEngine)
   \<and> \<not> active (glitchState idleEngine) \<and> mode (glitchState idleEngine) = NONE
   \<and> frozenOffset (glitchState idleEngine) = - 1"
proof -
  have enter: "\<not> active (glitchState chaosEngine) \<and> active (glitchState burstEngine)"
    by (simp add: chaosEngine_def burstEngine_def newEngine_def)
  have expire: "active (glitchState stutterEngine) \<and> 0.35 > endTime (glitchState stutterEngine)"
    by (simp add: stutterEngine_def)
  from glitch_burst_self_terminates [OF rndOk_zeros, of 0 chaosEngine]
    scheduler_enters_burst enter
  have 1: "0.1 \<le> endTime (glitchState burstEngine) - 0
     \<and> endTime (glitchState burstEngine) - 0 \<le> 0.3
     \<and> mode (glitchState burstEngine) \<noteq> NONE"
    by blast
  from glitch_burst_self_terminates [OF rndOk_zeros, of "0.35" stutterEngine]
    scheduler_ends_burst expire
  have 2: "\<not> active (glitchState idleEngine) \<and> mode (glitchState idleEngine) = NONE
     \<and> frozenOffset (glitchState idleEngine) = - 1"
    by blast
  from rndOk_zeros scheduler_enters_burst enter 1 scheduler_ends_burst expire 2
  show ?thesis by blast
qed

section \<open>Sessions of events\<close>

lemma scheduler_calm:
  assumes "scheduler rnd ct e = Some e'" "chaos (globalParams e) \<le> 0.05" "idle e"
  shows "idle e'" "globalParams e' = globalParams e"
proof -
  have g: "glitchState (glitchUpdate rnd ct e) = glitchState e"
    using assms(2,3) by (simp add: glitchUpdate_calm idle_def)
  note frame = scheduler_frame [OF assms(1), unfolded tickFrame_def]
  show "idle e'" using frame g assms(3) by (simp add: idle_def)
  show "globalParams e' = globalParams e" using frame by (simp add: glitchUpdate_frame)
qed

lemma applyEvent_calm:
  assumes "applyEvent rnd ev e = Some e'" "calmEvent ev" "chaos (globalParams e) \<le> 0.05" "idle e"
  shows "idle e' \<and> chaos (globalParams e') \<le> 0.05"
proof (cases ev)
  case (Tick ct)
  then show ?thesis using assms scheduler_calm [of rnd ct e e'] by simp
next
  case (UpdateOrbs orbsList)
  then show ?thesis using assms by (auto simp: updateOrbs_def idle_def)
next
  case (UpdateGlobalParams ps)
  then show ?thesis using assms by (auto simp: updateGlobalParams_def idle_def calmEvent_def)
qed

lemma run_calm:
  "run rnd evs e = Some e' \<Longrightarrow> list_all calmEvent evs \<Longrightarrow>
     chaos (globalParams e) \<le> 0.05 \<Longrightarrow> idle e \<Longrightarrow> idle e'"
proof (induction evs arbitrary: e)
  case Nil
  then show ?case by simp
next
  case (Cons ev evs)
  from Cons.prems(1) obtain e1 where
    e1: "applyEvent rnd ev e = Some e1" and rest: "run rnd evs e1 = Some e'"
    by (auto split: Option.bind_splits)
  have "idle e1 \<and> chaos (globalParams e1) \<le> 0.05"
    using applyEvent_calm [OF e1] Cons.prems by simp
  then show ?case
    using Cons.IH [OF rest] Cons.prems(2) by simp
qed

lemma update_set_subset: "set (AList.update k v al) \<subseteq> insert (k, v) (set al)"
  by (induction al) auto

lemma updateOrbs_fold_tempo:
  "list_all tempoOk orbsList \<Longrightarrow> list_all (\<lambda>(ident, orb). tempoOk orb) m \<Longrightarrow>
     list_all (\<lambda>(ident, orb). tempoOk orb)
       (fold (\<lambda>orb m. AList.update (orb_id orb) orb m) orbsList m)"
proof (induction orbsList arbitrary: m)
  case Nil
  then show ?case by simp
next
  case (Cons orb orbsList)
  have "set (AList.update (orb_id orb) orb m) \<subseteq> insert (orb_id orb, orb) (set m)"
    by (rule update_set_subset)
  then have "list_all (\<lambda>(ident, orb). tempoOk orb) (AList.update (orb_id orb) orb m)"
    using Cons.prems unfolding list_all_iff by fastforce
  then show ?case using Cons by simp
qed

lemma applyEvent_wellFormed:
  assumes "applyEvent rnd ev e = Some e'" "eventOk ev" "wellFormed e"
  shows "wellFormed e'"
proof (cases ev)
  case (Tick ct)
  then have "scheduler rnd ct e = Some e'" using assms(1) by simp
  from scheduler_frame [OF this, unfolded tickFrame_def] show ?thesis
    using assms(3) by (simp add: wellFormed_def glitchUpdate_frame)
next
  case (UpdateOrbs orbsList)
  then show ?thesis
    using assms updateOrbs_fold_tempo [of orbsList "[]"]
    by (auto simp: updateOrbs_def wellFormed_def eventOk_def)
next
  case (UpdateGlobalParams ps)
  then show ?thesis
    using assms by (auto simp: updateGlobalParams_def wellFormed_def eventOk_def)
qed

lemma applyEvent_returns:
  assumes "rndOk rnd" "wellFormed e"
  shows "\<exists>e'. applyEvent rnd ev e = Some e'"
  using scheduler_returns [OF assms] by (cases ev) simp_all

lemma run_returns:
  assumes "rndOk rnd"
  shows "list_all eventOk evs \<Longrightarrow> wellFormed e \<Longrightarrow> \<exists>e'. run rnd evs e = Some e'"
proof (induction evs arbitrary: e)
  case Nil
  then show ?case by simp
next
  case (Cons ev evs)
  obtain e1 where e1: "applyEvent rnd ev e = Some e1"
    using applyEvent_returns [OF assms Cons.prems(2)] by blast
  have "wellFormed e1"
    using applyEvent_wellFormed [OF e1] Cons.prems by simp
  from Cons.IH [OF _ this] Cons.prems(1) show ?case
    using e1 by simp
qed

text \<open>
  C6. With the chaos parameter at or below 0.05, in the engine and in every parameter
  update, an idle glitch machine is idle after any sequence of ticks and facade calls;
  and such a session of a well-formed engine returns.
\<close>

theorem chaos_below_threshold_stays_idle:
  assumes "chaos (globalParams e) \<le> 0.05"
    and "\<not> active (glitchState e)" "mode (glitchState e) = NONE"
    and "list_all calmEvent evs"
  shows "(\<forall>e'. run rnd evs e = Some e' \<longrightarrow>
            \<not> active (glitchState e') \<and> mode (glitchState e') = NONE)
       \<and> (rndOk rnd \<and> wellFormed e \<and> list_all eventOk evs \<longrightarrow>
            (\<exists>e'. run rnd evs e = Some e'))"
proof (intro conjI allI impI)
  fix e'
  assume "run rnd evs e = Some e'"
  then have "idle e'"
    using assms by (intro run_calm [of rnd evs e e']) (simp_all add: idle_def)
  then show "\<not> active (glitchState e')" "mode (glitchState e') = NONE"
    by (simp_all add: idle_def)
next
  assume "rndOk rnd \<and> wellFormed e \<and> list_all eventOk evs"
  then show "\<exists>e'. run rnd evs e = Some e'"
    using run_returns by blast
qed



lemma wellFormed_newEngine: "wellFormed newEngine"
  by (simp add: wellFormed_def newEngine_def)

theorem chaos_below_threshold_stays_idle_witness:
  "chaos (globalParams newEngine) \<le> 0.05
   \<and> \<not> active (glitchState newEngine) \<and> mode (glitchState newEngine) = NONE
   \<and> list_all calmEvent calmSession
   \<and> rndOk halves \<and> wellFormed newEngine \<and> list_all eventOk calmSession
   \<and> (\<exists>e'. run halves calmSession newEngine = Some e'
          \<and> \<not> active (glitchState e') \<and> mode (glitchState e') = NONE)"
proof -
  have h: "chaos (globalParams newEngine) \<le> 0.05" "\<not> active (glitchState newEngine)"
    "mode (glitchState newEngine) = NONE"
    by (simp_all add: newEngine_def)
  have c: "list_all calmEvent calmSession"
    by (simp add: calmSession_def calmEvent_def)
  have ok: "list_all eventOk calmSession"
    by (simp add: calmSession_def eventOk_def tempoOk_def pitchOrb_def)
  from chaos_below_threshold_stays_idle [OF h c, of halves]
    rndOk_halves wellFormed_newEngine ok
  have "\<exists>e'. run halves calmSession newEngine = Some e'
          \<and> \<not> active (glitchState e') \<and> mode (glitchState e') = NONE"
    by blast
  with h c ok rndOk_halves wellFormed_newEngine show ?thesis
    by blast
qed

section \<open>The cursor table and the orb set\<close>

lemma updateOrbs_sparse:
  "updateOrbs [sparseOrb] newEngine = newEngine\<lparr>orbs := [(''a'', sparseOrb)]\<rparr>"
  by (simp add: updateOrbs_def sparseOrb_def)

lemma wrapOffset_zero: "wrapOffset 0 1 = 0"
  by (simp add: wrapOffset_def js_rem_def trunc_def)

lemma clampRate_one: "clampRate 1 = 1"
  by (simp add: clampRate_def)

lemma freeRunInterval_zero: "freeRunInterval 0 = 0.451"
proof -
  have "sqrt (1 / 100 :: real) = 1 / 10"
    by (rule real_sqrt_unique) (simp_all add: power2_eq_square)
  then show ?thesis
    by (simp add: freeRunInterval_def Let_def)
qed

lemma grainStep_sparse:
  "grainStep halves sparseOrb 0 (newEngine\<lparr>orbs := [(''a'', sparseOrb)]\<rparr>)
     = Some (0.451, newEngine\<lparr>orbs := [(''a'', sparseOrb)], rng := 4, voices := [sparseVoice]\<rparr>)"
  by (simp add: grainStep_def scheduleGrain_def beatSyncPitch_def startVoice_def
      advanceCursor_def glitchRate_def glitchGrainSize_def freezePosition_def
      lfoPlaybackRate_def lfoPosition_def lfoGrainSize_def lfoVolume_def
      Let_def sparseOrb_def defaultParams_def demoBuffer_def newEngine_def halves_def
      sparseVoice_def wrapOffset_zero clampRate_one freeRunInterval_zero)

lemma grainLoop_sparse: "grainLoop halves sparseOrb 0 (0, newEngine\<lparr>orbs := [(''a'', sparseOrb)]\<rparr>)
      = Some (0.451, newEngine\<lparr>orbs := [(''a'', sparseOrb)], rng := 4, voices := [sparseVoice]\<rparr>)"
  apply (subst grainLoop.simps)
  apply (simp add: scheduleAheadTime_def grainStep_sparse)
  apply (subst grainLoop.simps)
  apply (simp add: scheduleAheadTime_def)
  done

lemma scheduler_sparse:
  "scheduler halves 0 (newEngine\<lparr>orbs := [(''a'', sparseOrb)]\<rparr>) = Some playedEngine"
proof -
  have g: "glitchUpdate halves 0 (newEngine\<lparr>orbs := [(''a'', sparseOrb)]\<rparr>)
      = newEngine\<lparr>orbs := [(''a'', sparseOrb)]\<rparr>"
    by (simp add: glitchUpdate_def Let_def newEngine_def)
  have c: "startCursor (newEngine\<lparr>orbs := [(''a'', sparseOrb)]\<rparr>) ''a'' 0 = 0"
    by (simp add: startCursor_def newEngine_def)
  have n: "nextGrainTime newEngine = Map.empty"
    by (simp add: newEngine_def)
  have "orbsForEach halves 0 [(''a'', sparseOrb)] (newEngine\<lparr>orbs := [(''a'', sparseOrb)]\<rparr>)
     = Some playedEngine"
    by (simp add: c grainLoop_sparse playedEngine_def n)
  then show ?thesis
    by (simp add: scheduler_def Let_def g)
qed

lemma run_stale:
  "run halves [UpdateOrbs [sparseOrb], Tick 0, UpdateOrbs []] newEngine = Some staleEngine"
proof -
  have 1: "applyEvent halves (UpdateOrbs [sparseOrb]) newEngine
      = Some (newEngine\<lparr>orbs := [(''a'', sparseOrb)]\<rparr>)"
    by (simp add: updateOrbs_sparse)
  have 2: "applyEvent halves (Tick 0) (newEngine\<lparr>orbs := [(''a'', sparseOrb)]\<rparr>)
      = Some playedEngine"
    by (simp add: scheduler_sparse)
  have 3: "applyEvent halves (UpdateOrbs []) playedEngine = Some staleEngine"
    by (simp add: updateOrbs_def staleEngine_def)
  show ?thesis
    by (simp only: run.simps 1 2 3 Option.bind.simps)
qed

text \<open>
  C1. The claim is that after \<open>updateOrbs\<close> the cursor table holds one entry for
  every orb of the new list and none for a removed orb. One orb is registered, a tick runs
  at time 0, and \<open>updateOrbs([])\<close> removes the orb: the table still holds the cursor
  0.451 of the removed orb. And right after \<open>updateOrbs\<close> registered the orb, the table
  held no entry for it.
\<close>

theorem updateOrbs_keeps_stale_cursor:
  "run halves [UpdateOrbs [sparseOrb], Tick 0, UpdateOrbs []] newEngine = Some staleEngine
   \<and> orbs staleEngine = []
   \<and> nextGrainTime staleEngine ''a'' = Some 0.451
   \<and> orbs (updateOrbs [sparseOrb] newEngine) = [(''a'', sparseOrb)]
   \<and> nextGrainTime (updateOrbs [sparseOrb] newEngine) ''a'' = None"
proof (intro conjI)
  show "run halves [UpdateOrbs [sparseOrb], Tick 0, UpdateOrbs []] newEngine = Some staleEngine"
    by (rule run_stale)
  show "orbs staleEngine = []"
    by (simp add: staleEngine_def)
  show "nextGrainTime staleEngine ''a'' = Some 0.451"
    by (simp add: staleEngine_def playedEngine_def)
  show "orbs (updateOrbs [sparseOrb] newEngine) = [(''a'', sparseOrb)]"
    by (simp add: updateOrbs_sparse)
  show "nextGrainTime (updateOrbs [sparseOrb] newEngine) ''a'' = None"
    by (simp add: updateOrbs_def newEngine_def)
qed

lemma updateOrbs_fold_map_of:
  "map_of (fold (\<lambda>orb m. AList.update (orb_id orb) orb m) orbsList m)
     = map_of (rev (map (\<lambda>orb. (orb_id orb, orb)) orbsList) @ m)"
  by (induction orbsList arbitrary: m)
    (auto simp: update_conv fun_eq_iff map_add_def split: option.splits)

lemma updateOrbs_fold_distinct:
  "distinct (map fst m) \<Longrightarrow>
     distinct (map fst (fold (\<lambda>orb m. AList.update (orb_id orb) orb m) orbsList m))"
  by (induction orbsList arbitrary: m) (simp_all add: distinct_update)

lemma grainLoop_horizon:
  assumes "grainLoop rnd orb ct (t, e) = Some (t', e')"
  shows "ct + scheduleAheadTime \<le> t'"
proof -
  have "True \<and> \<not> t' < ct + scheduleAheadTime"
    using assms by (rule grainLoop_invariant [where I = "\<lambda>t1 e1. True"]) simp_all
  then show ?thesis by simp
qed

lemma orbsForEach_cursors:
  "orbsForEach rnd ct os e = Some e' \<Longrightarrow>
     (\<forall>ident \<in> fst ` set os. \<exists>t. nextGrainTime e' ident = Some t \<and> ct + scheduleAheadTime \<le> t)
     \<and> (\<forall>ident. ident \<notin> fst ` set os \<longrightarrow> nextGrainTime e' ident = nextGrainTime e ident)"
proof (induction os arbitrary: e)
  case Nil
  then show ?case by simp
next
  case (Cons io os)
  obtain ident orb where io: "io = (ident, orb)" by (cases io)
  from Cons.prems obtain t1 e1 where
    loop: "grainLoop rnd orb ct (startCursor e ident ct, e) = Some (t1, e1)"
    and rest: "orbsForEach rnd ct os
        (e1\<lparr>nextGrainTime := (nextGrainTime e1)(ident \<mapsto> t1)\<rparr>) = Some e'"
    by (auto simp: io split: Option.bind_splits)
  have same: "nextGrainTime e1 = nextGrainTime e"
    using grainLoop_frame [OF loop] by (simp add: grainFrame_def)
  have far: "ct + scheduleAheadTime \<le> t1"
    using loop by (rule grainLoop_horizon)
  note IH = Cons.IH [OF rest]
  have later: "\<forall>i \<in> fst ` set os. \<exists>t. nextGrainTime e' i = Some t \<and> ct + scheduleAheadTime \<le> t"
    using IH by simp
  have kept: "\<forall>i. i \<notin> fst ` set os \<longrightarrow>
      nextGrainTime e' i = ((nextGrainTime e1)(ident \<mapsto> t1)) i"
    using IH by simp
  have "\<exists>t. nextGrainTime e' i = Some t \<and> ct + scheduleAheadTime \<le> t"
    if "i \<in> fst ` set (io # os)" for i
  proof (cases "i \<in> fst ` set os")
    case True
    then show ?thesis using later by blast
  next
    case False
    then have "i = ident" using that by (simp add: io)
    then show ?thesis using kept False far by simp
  qed
  moreover have "nextGrainTime e' i = nextGrainTime e i" if "i \<notin> fst ` set (io # os)" for i
    using that kept same by (simp add: io)
  ultimately show ?case by blast
qed

lemma scheduler_cursors:
  assumes "scheduler rnd ct e = Some e'"
  shows "\<forall>ident \<in> fst ` set (orbs e).
           \<exists>t. nextGrainTime e' ident = Some t \<and> ct + scheduleAheadTime \<le> t"
    and "\<forall>ident. ident \<notin> fst ` set (orbs e) \<longrightarrow> nextGrainTime e' ident = nextGrainTime e ident"
    and "orbs e' = orbs e"
proof -
  have run: "orbsForEach rnd ct (orbs e) (glitchUpdate rnd ct e) = Some e'"
    using assms by (simp add: scheduler_def Let_def glitchUpdate_frame)
  note c = orbsForEach_cursors [OF run]
  show "\<forall>ident \<in> fst ` set (orbs e).
           \<exists>t. nextGrainTime e' ident = Some t \<and> ct + scheduleAheadTime \<le> t"
    using c by simp
  show "\<forall>ident. ident \<notin> fst ` set (orbs e) \<longrightarrow> nextGrainTime e' ident = nextGrainTime e ident"
    using c by (simp add: glitchUpdate_frame)
  show "orbs e' = orbs e"
    using scheduler_frame [OF assms] by (simp add: tickFrame_def glitchUpdate_frame)
qed

text \<open>
  C1, as the code has it. \<open>updateOrbs\<close> changes nothing but the orb set, so the cursor
  table is as it was; the new orb set holds, under every id of the list, the last orb of
  the list with that id, each id once. A completed scheduler tick keeps the orb set, leaves
  for every registered orb a cursor at or beyond the horizon of the tick, and leaves every
  other entry of the table as it was.
\<close>

theorem updateOrbs_leaves_cursor_table:
  "(updateOrbs orbsList e)\<lparr>orbs := orbs e\<rparr> = e
   \<and> nextGrainTime (updateOrbs orbsList e) = nextGrainTime e
   \<and> map_of (orbs (updateOrbs orbsList e))
       = map_of (rev (map (\<lambda>orb. (orb_id orb, orb)) orbsList))
   \<and> distinct (map fst (orbs (updateOrbs orbsList e)))
   \<and> (\<forall>e'. scheduler rnd ct e = Some e' \<longrightarrow>
         orbs e' = orbs e
         \<and> (\<forall>ident \<in> fst ` set (orbs e).
               \<exists>t. nextGrainTime e' ident = Some t \<and> ct + scheduleAheadTime \<le> t)
         \<and> (\<forall>ident. ident \<notin> fst ` set (orbs e) \<longrightarrow>
               nextGrainTime e' ident = nextGrainTime e ident))"
proof (intro conjI allI impI)
  show "(updateOrbs orbsList e)\<lparr>orbs := orbs e\<rparr> = e"
    by (simp add: updateOrbs_def)
  show "nextGrainTime (updateOrbs orbsList e) = nextGrainTime e"
    by (simp add: updateOrbs_def)
  show "map_of (orbs (updateOrbs orbsList e))
       = map_of (rev (map (\<lambda>orb. (orb_id orb, orb)) orbsList))"
    using updateOrbs_fold_map_of [of orbsList "[]"] by (simp add: updateOrbs_def)
  show "distinct (map fst (orbs (updateOrbs orbsList e)))"
    using updateOrbs_fold_distinct [of "[]" orbsList] by (simp add: updateOrbs_def)
next
  fix e'
  assume run: "scheduler rnd ct e = Some e'"
  show "orbs e' = orbs e"
    using run by (rule scheduler_cursors(3))
  show "\<forall>ident \<in> fst ` set (orbs e).
               \<exists>t. nextGrainTime e' ident = Some t \<and> ct + scheduleAheadTime \<le> t"
    using run by (rule scheduler_cursors(1))
next
  fix e' ident
  assume run: "scheduler rnd ct e = Some e'" and "ident \<notin> fst ` set (orbs e)"
  then show "nextGrainTime e' ident = nextGrainTime e ident"
    using scheduler_cursors(2) by blast
qed

theorem updateOrbs_leaves_cursor_table_witness:
  "scheduler halves 0 (updateOrbs [sparseOrb] newEngine) = Some playedEngine
   \<and> (updateOrbs [sparseOrb] newEngine)\<lparr>orbs := orbs newEngine\<rparr> = newEngine
   \<and> nextGrainTime (updateOrbs [sparseOrb] newEngine) = nextGrainTime newEngine
   \<and> map_of (orbs (updateOrbs [sparseOrb] newEngine))
       = map_of (rev (map (\<lambda>orb. (orb_id orb, orb)) [sparseOrb]))
   \<and> distinct (map fst (orbs (updateOrbs [sparseOrb] newEngine)))
   \<and> orbs playedEngine = orbs (updateOrbs [sparseOrb] newEngine)
   \<and> ''a'' \<in> fst ` set (orbs (updateOrbs [sparseOrb] newEngine))
   \<and> (\<exists>t. nextGrainTime playedEngine ''a'' = Some t \<and> 0 + scheduleAheadTime \<le> t)
   \<and> ''b'' \<notin> fst ` set (orbs (updateOrbs [sparseOrb] newEngine))
   \<and> nextGrainTime playedEngine ''b''
       = nextGrainTime (updateOrbs [sparseOrb] newEngine) ''b''"
proof (intro conjI)
  show s: "scheduler halves 0 (updateOrbs [sparseOrb] newEngine) = Some playedEngine"
    by (simp only: updateOrbs_sparse scheduler_sparse)
  note fresh = updateOrbs_leaves_cursor_table
    [where orbsList = "[sparseOrb]" and e = newEngine and rnd = halves and ct = 0]
  show "(updateOrbs [sparseOrb] newEngine)\<lparr>orbs := orbs newEngine\<rparr> = newEngine"
    using fresh by (rule conjunct1)
  show "nextGrainTime (updateOrbs [sparseOrb] newEngine) = nextGrainTime newEngine"
    using fresh [THEN conjunct2] by (rule conjunct1)
  show "map_of (orbs (updateOrbs [sparseOrb] newEngine))
       = map_of (rev (map (\<lambda>orb. (orb_id orb, orb)) [sparseOrb]))"
    using fresh [THEN conjunct2, THEN conjunct2] by (rule conjunct1)
  show "distinct (map fst (orbs (updateOrbs [sparseOrb] newEngine)))"
    using fresh [THEN conjunct2, THEN conjunct2, THEN conjunct2] by (rule conjunct1)
  note tick = updateOrbs_leaves_cursor_table
    [where orbsList = "[sparseOrb]" and e = "updateOrbs [sparseOrb] newEngine"
        and rnd = halves and ct = 0,
      THEN conjunct2, THEN conjunct2, THEN conjunct2, THEN conjunct2, THEN spec, THEN mp,
      OF s]
  show "orbs playedEngine = orbs (updateOrbs [sparseOrb] newEngine)"
    using tick by (rule conjunct1)
  show a: "''a'' \<in> fst ` set (orbs (updateOrbs [sparseOrb] newEngine))"
    by (simp add: updateOrbs_sparse)
  show "\<exists>t. nextGrainTime playedEngine ''a'' = Some t \<and> 0 + scheduleAheadTime \<le> t"
    by (rule tick [THEN conjunct2, THEN conjunct1, THEN bspec, OF a])
  show b: "''b'' \<notin> fst ` set (orbs (updateOrbs [sparseOrb] newEngine))"
    by (simp add: updateOrbs_sparse)
  show "nextGrainTime playedEngine ''b''
       = nextGrainTime (updateOrbs [sparseOrb] newEngine) ''b''"
    by (rule tick [THEN conjunct2, THEN conjunct2, THEN spec, THEN mp, OF b])
qed

section \<open>The order of the grains of an orb\<close>

lemma startCursor_ge:
  assumes "nextGrainTime e ident = Some c" "0 \<le> ct"
  shows "c \<le> startCursor e ident ct"
  using assms by (simp add: startCursor_def Let_def)

lemma orbTimes_snoc:
  "orbTimes j (vs @ [v]) = (if voiceOrb v = j then orbTimes j vs @ [startTime v] else orbTimes j vs)"
  by (simp add: orbTimes_def)

lemma orbTimes_set: "set (orbTimes j vs) = startTime ` {v \<in> set vs. voiceOrb v = j}"
  by (auto simp: orbTimes_def)

lemma loopInv_snoc:
  assumes "loopInv ident t e" "t < t1" "startTime v = t" "voiceOrb v = ident"
    and "voices e1 = voices e @ [v]" "nextGrainTime e1 = nextGrainTime e"
  shows "loopInv ident t1 e1"
proof -
  have old: "\<forall>u \<in> set (voices e).
         if voiceOrb u = ident then startTime u < t
         else (\<exists>c. nextGrainTime e (voiceOrb u) = Some c \<and> startTime u < c)"
    and sorted: "\<forall>j. sorted_wrt (<) (orbTimes j (voices e))"
    using assms(1) by (simp_all add: loopInv_def)
  have "\<forall>u \<in> set (voices e1).
         if voiceOrb u = ident then startTime u < t1
         else (\<exists>c. nextGrainTime e1 (voiceOrb u) = Some c \<and> startTime u < c)"
  proof
    fix u assume "u \<in> set (voices e1)"
    then consider "u \<in> set (voices e)" | "u = v" using assms(5) by auto
    then show "if voiceOrb u = ident then startTime u < t1
         else (\<exists>c. nextGrainTime e1 (voiceOrb u) = Some c \<and> startTime u < c)"
    proof cases
      case 1
      then show ?thesis using old assms(2,6) by (auto split: if_splits)
    next
      case 2
      then show ?thesis using assms(2,3,4) by simp
    qed
  qed
  moreover have "sorted_wrt (<) (orbTimes j (voices e1))" for j
  proof (cases "j = ident")
    case False
    then show ?thesis using sorted assms(4,5) by (simp add: orbTimes_snoc)
  next
    case True
    have "\<forall>x \<in> set (orbTimes ident (voices e)). x < t"
      using old by (auto simp: orbTimes_set)
    then show ?thesis
      using sorted True assms(3,4,5) by (simp add: orbTimes_snoc sorted_wrt_append)
  qed
  ultimately show ?thesis by (simp add: loopInv_def)
qed

lemma loopInv_later:
  assumes "loopInv ident t e" "t < t1" "voices e1 = voices e" "nextGrainTime e1 = nextGrainTime e"
  shows "loopInv ident t1 e1"
  using assms unfolding loopInv_def by (auto split: if_splits)

lemma grainStep_loopInv:
  assumes "grainStep rnd orb t e = Some (t1, e1)" "rndOk rnd" "0 < masterBpm (globalParams e)"
    and "loopInv (orb_id orb) t e"
  shows "loopInv (orb_id orb) t1 e1"
proof -
  have "t + stepFloor (globalParams e) \<le> t1"
    using assms(1,2,3) by (rule grainStep_forward)
  then have lt: "t < t1"
    using stepFloor_pos [OF assms(3)] by simp
  have same: "nextGrainTime e1 = nextGrainTime e"
    using grainStep_frame [OF assms(1)] by (simp add: grainFrame_def)
  from grainStep_voices [OF assms(1)] show ?thesis
  proof
    assume "voices e1 = voices e"
    with assms(4) lt show ?thesis using same by (rule loopInv_later)
  next
    assume "\<exists>v. voices e1 = voices e @ [v] \<and> startTime v = t \<and> voiceOrb v = orb_id orb"
    then obtain v where v: "startTime v = t" "voiceOrb v = orb_id orb"
      "voices e1 = voices e @ [v]"
      by blast
    from assms(4) lt v same show ?thesis by (rule loopInv_snoc)
  qed
qed

lemma grainLoop_loopInv:
  assumes "grainLoop rnd orb ct (t, e) = Some (t', e')" "rndOk rnd"
    and "0 < masterBpm (globalParams e)" "loopInv (orb_id orb) t e"
  shows "loopInv (orb_id orb) t' e'"
proof -
  have "(loopInv (orb_id orb) t' e' \<and> globalParams e' = globalParams e)
      \<and> \<not> t' < ct + scheduleAheadTime"
    using assms(1)
  proof (rule grainLoop_invariant [where I = "\<lambda>t1 e1. loopInv (orb_id orb) t1 e1
        \<and> globalParams e1 = globalParams e"])
    show "loopInv (orb_id orb) t e \<and> globalParams e = globalParams e"
      using assms(4) by simp
  next
    fix t0 e0 t1 e1
    assume inv: "loopInv (orb_id orb) t0 e0 \<and> globalParams e0 = globalParams e"
      and step: "grainStep rnd orb t0 e0 = Some (t1, e1)"
    have pos: "0 < masterBpm (globalParams e0)" using inv assms(3) by simp
    have "loopInv (orb_id orb) t0 e0" using inv by simp
    with step assms(2) pos have "loopInv (orb_id orb) t1 e1"
      by (rule grainStep_loopInv)
    moreover have "globalParams e1 = globalParams e"
      using grainStep_frame [OF step] inv by (simp add: grainFrame_def)
    ultimately show "loopInv (orb_id orb) t1 e1 \<and> globalParams e1 = globalParams e"
      by simp
  qed
  then show ?thesis by simp
qed

lemma cursorInv_enter:
  assumes "cursorInv e" "0 \<le> ct"
  shows "loopInv ident (startCursor e ident ct) e"
  unfolding loopInv_def
proof (intro conjI ballI)
  fix v assume v: "v \<in> set (voices e)"
  then obtain c where c: "nextGrainTime e (voiceOrb v) = Some c" "startTime v < c"
    using assms(1) by (auto simp: cursorInv_def)
  show "if voiceOrb v = ident then startTime v < startCursor e ident ct
         else (\<exists>c. nextGrainTime e (voiceOrb v) = Some c \<and> startTime v < c)"
  proof (cases "voiceOrb v = ident")
    case True
    then have "nextGrainTime e ident = Some c" using c(1) by simp
    then have "c \<le> startCursor e ident ct"
      using assms(2) by (rule startCursor_ge)
    then show ?thesis using True c(2) by simp
  next
    case False
    then show ?thesis using c by simp
  qed
next
  show "\<forall>j. sorted_wrt (<) (orbTimes j (voices e))"
    using assms(1) by (simp add: cursorInv_def)
qed

lemma loopInv_leave:
  assumes "loopInv ident t e"
  shows "cursorInv (e\<lparr>nextGrainTime := (nextGrainTime e)(ident \<mapsto> t)\<rparr>)"
  using assms by (auto simp: loopInv_def cursorInv_def split: if_splits)

lemma orbsForEach_cursorInv:
  assumes "rndOk rnd" "0 \<le> ct"
  shows "orbsForEach rnd ct os e = Some e' \<Longrightarrow> keysMatch os \<Longrightarrow>
     0 < masterBpm (globalParams e) \<Longrightarrow> cursorInv e \<Longrightarrow> cursorInv e'"
proof (induction os arbitrary: e)
  case Nil
  then show ?case by simp
next
  case (Cons io os)
  obtain ident orb where io: "io = (ident, orb)" by (cases io)
  have key: "orb_id orb = ident" and keys: "keysMatch os"
    using Cons.prems(2) by (simp_all add: keysMatch_def io)
  from Cons.prems(1) obtain t1 e1 where
    loop: "grainLoop rnd orb ct (startCursor e ident ct, e) = Some (t1, e1)"
    and rest: "orbsForEach rnd ct os
        (e1\<lparr>nextGrainTime := (nextGrainTime e1)(ident \<mapsto> t1)\<rparr>) = Some e'"
    by (auto simp: io split: Option.bind_splits)
  have "loopInv (orb_id orb) (startCursor e ident ct) e"
    unfolding key using Cons.prems(4) assms(2) by (rule cursorInv_enter)
  with loop assms(1) Cons.prems(3) have "loopInv (orb_id orb) t1 e1"
    by (rule grainLoop_loopInv)
  then have inv: "cursorInv (e1\<lparr>nextGrainTime := (nextGrainTime e1)(ident \<mapsto> t1)\<rparr>)"
    unfolding key by (rule loopInv_leave)
  have "globalParams e1 = globalParams e"
    using grainLoop_frame [OF loop] by (simp add: grainFrame_def)
  then have pos: "0 < masterBpm (globalParams (e1\<lparr>nextGrainTime := (nextGrainTime e1)(ident \<mapsto> t1)\<rparr>))"
    using Cons.prems(3) by simp
  show ?case
    using rest keys pos inv by (rule Cons.IH)
qed

lemma scheduler_cursorInv:
  assumes "scheduler rnd ct e = Some e'" "rndOk rnd" "0 \<le> ct" "keysMatch (orbs e)"
    and "0 < masterBpm (globalParams e)" "cursorInv e"
  shows "cursorInv e'"
proof -
  have run: "orbsForEach rnd ct (orbs e) (glitchUpdate rnd ct e) = Some e'"
    using assms(1) by (simp add: scheduler_def Let_def glitchUpdate_frame)
  have inv: "cursorInv (glitchUpdate rnd ct e)"
    using assms(6) by (simp add: cursorInv_def glitchUpdate_frame)
  have pos: "0 < masterBpm (globalParams (glitchUpdate rnd ct e))"
    using assms(5) by (simp add: glitchUpdate_frame)
  show ?thesis
    using run assms(4) pos inv by (rule orbsForEach_cursorInv [OF assms(2,3)])
qed

lemma updateOrbs_fold_keysMatch:
  "keysMatch m \<Longrightarrow> keysMatch (fold (\<lambda>orb m. AList.update (orb_id orb) orb m) orbsList m)"
proof (induction orbsList arbitrary: m)
  case Nil
  then show ?case by simp
next
  case (Cons orb orbsList)
  have "set (AList.update (orb_id orb) orb m) \<subseteq> insert (orb_id orb, orb) (set m)"
    by (rule update_set_subset)
  then have "keysMatch (AList.update (orb_id orb) orb m)"
    using Cons.prems unfolding keysMatch_def list_all_iff by fastforce
  then show ?case using Cons.IH by simp
qed

lemma applyEvent_sessionInv:
  assumes "applyEvent rnd ev e = Some e'" "rndOk rnd" "eventOk ev" "sessionInv e"
  shows "sessionInv e'"
proof -
  have "wellFormed e" using assms(4) by (simp add: sessionInv_def)
  with assms(1,3) have wf: "wellFormed e'"
    by (rule applyEvent_wellFormed)
  show ?thesis
  proof (cases ev)
    case (Tick ct)
    then have run: "scheduler rnd ct e = Some e'" and ct: "0 \<le> ct"
      using assms(1,3) by (simp_all add: eventOk_def)
    have "keysMatch (orbs e)" "0 < masterBpm (globalParams e)" "cursorInv e"
      using assms(4) by (simp_all add: sessionInv_def wellFormed_def)
    with run assms(2) ct have "cursorInv e'"
      by (rule scheduler_cursorInv)
    moreover have "orbs e' = orbs e"
      using scheduler_frame [OF run] by (simp add: tickFrame_def glitchUpdate_frame)
    ultimately show ?thesis using wf assms(4) by (simp add: sessionInv_def)
  next
    case (UpdateOrbs orbsList)
    then have e': "e' = updateOrbs orbsList e" using assms(1) by simp
    have "keysMatch (orbs e')"
      unfolding e' updateOrbs_def using updateOrbs_fold_keysMatch [of "[]" orbsList]
      by (simp add: keysMatch_def)
    moreover have "cursorInv e'"
      using assms(4) by (simp add: e' updateOrbs_def sessionInv_def cursorInv_def)
    ultimately show ?thesis using wf by (simp add: sessionInv_def)
  next
    case (UpdateGlobalParams ps)
    then have e': "e' = updateGlobalParams ps e" using assms(1) by simp
    show ?thesis
      using assms(4) wf by (simp add: e' updateGlobalParams_def sessionInv_def cursorInv_def)
  qed
qed

lemma run_sessionInv:
  assumes "rndOk rnd"
  shows "run rnd evs e = Some e' \<Longrightarrow> list_all eventOk evs \<Longrightarrow> sessionInv e \<Longrightarrow> sessionInv e'"
proof (induction evs arbitrary: e)
  case Nil
  then show ?case by simp
next
  case (Cons ev evs)
  from Cons.prems(1) obtain e1 where
    e1: "applyEvent rnd ev e = Some e1" and rest: "run rnd evs e1 = Some e'"
    by (auto split: Option.bind_splits)
  have "eventOk ev" and oks: "list_all eventOk evs"
    using Cons.prems(2) by simp_all
  from e1 assms this(1) Cons.prems(3) have "sessionInv e1"
    by (rule applyEvent_sessionInv)
  with rest oks show ?case
    by (rule Cons.IH)
qed

lemma sessionInv_newEngine: "sessionInv newEngine"
  by (simp add: sessionInv_def wellFormed_newEngine)
    (simp add: keysMatch_def cursorInv_def orbTimes_def newEngine_def)

text \<open>
  C8. With a positive master tempo throughout and a clock that is not negative, any
  session of ticks and facade calls on a new engine returns, and the start times of the
  grains of every orb, in the order they were scheduled, are strictly increasing; every
  branch of the cursor step moves the cursor strictly forward.
\<close>

theorem grain_times_strictly_increasing:
  assumes "rndOk rnd" "list_all eventOk evs"
  shows "(\<exists>e'. run rnd evs newEngine = Some e'
            \<and> (\<forall>ident. sorted_wrt (<) (orbTimes ident (voices e'))))
       \<and> (\<forall>gp gs d k t. 0 < masterBpm gp \<longrightarrow> t < fst (advanceCursor rnd gp gs d k t))"
proof (intro conjI allI impI)
  obtain e' where run: "run rnd evs newEngine = Some e'"
    using run_returns [OF assms wellFormed_newEngine] by blast
  have "sessionInv e'"
    using run assms(2) sessionInv_newEngine by (rule run_sessionInv [OF assms(1)])
  then have "\<forall>ident. sorted_wrt (<) (orbTimes ident (voices e'))"
    by (simp add: sessionInv_def cursorInv_def)
  with run show "\<exists>e'. run rnd evs newEngine = Some e'
            \<and> (\<forall>ident. sorted_wrt (<) (orbTimes ident (voices e')))"
    by blast
next
  fix gp :: GlobalParams and gs :: GlitchState and d t :: real and k :: nat
  assume pos: "0 < masterBpm gp"
  have "t + stepFloor gp \<le> fst (advanceCursor rnd gp gs d k t)"
    using assms(1) pos by (rule advanceCursor_forward)
  then show "t < fst (advanceCursor rnd gp gs d k t)"
    using stepFloor_pos [OF pos] by simp
qed

text \<open>The session of two ticks, evaluated: the orb gets a grain at 0 and one at 0.5.\<close>

lemma grainStep_sparse_later:
  "grainStep halves sparseOrb (1 / 2) playedEngine
     = Some (0.951, playedEngine\<lparr>rng := 8, voices := [sparseVoice, laterVoice]\<rparr>)"
  by (simp add: grainStep_def scheduleGrain_def beatSyncPitch_def startVoice_def
      advanceCursor_def glitchRate_def glitchGrainSize_def freezePosition_def
      lfoPlaybackRate_def lfoPosition_def lfoGrainSize_def lfoVolume_def
      Let_def sparseOrb_def defaultParams_def demoBuffer_def newEngine_def halves_def
      playedEngine_def laterVoice_def wrapOffset_zero clampRate_one freeRunInterval_zero)

lemma grainLoop_sparse_later:
  "grainLoop halves sparseOrb (1 / 2) (1 / 2, playedEngine)
     = Some (0.951, playedEngine\<lparr>rng := 8, voices := [sparseVoice, laterVoice]\<rparr>)"
  apply (subst grainLoop.simps)
  apply (simp add: scheduleAheadTime_def grainStep_sparse_later)
  apply (subst grainLoop.simps)
  apply (simp add: scheduleAheadTime_def)
  done

lemma scheduler_sparse_later: "scheduler halves (1 / 2) playedEngine = Some replayedEngine"
proof -
  have g: "glitchUpdate halves (1 / 2) playedEngine = playedEngine"
    by (simp add: glitchUpdate_def Let_def playedEngine_def newEngine_def)
  have c: "startCursor playedEngine ''a'' (1 / 2) = 1 / 2"
    by (simp add: startCursor_def playedEngine_def)
  have n: "nextGrainTime playedEngine = [''a'' \<mapsto> 0.451]"
    by (simp add: playedEngine_def)
  have o: "orbs playedEngine = [(''a'', sparseOrb)]"
    by (simp add: playedEngine_def)
  have "orbsForEach halves (1 / 2) [(''a'', sparseOrb)] playedEngine = Some replayedEngine"
    by (simp add: c grainLoop_sparse_later replayedEngine_def n)
  then show ?thesis
    by (simp only: scheduler_def Let_def g o)
qed

lemma run_sparseSession: "run halves sparseSession newEngine = Some replayedEngine"
proof -
  have 1: "applyEvent halves (UpdateOrbs [sparseOrb]) newEngine
      = Some (newEngine\<lparr>orbs := [(''a'', sparseOrb)]\<rparr>)"
    by (simp add: updateOrbs_sparse)
  have 2: "applyEvent halves (Tick 0) (newEngine\<lparr>orbs := [(''a'', sparseOrb)]\<rparr>)
      = Some playedEngine"
    by (simp add: scheduler_sparse)
  have 3: "applyEvent halves (Tick (1 / 2)) playedEngine = Some replayedEngine"
    by (simp add: scheduler_sparse_later)
  show ?thesis
    by (simp only: sparseSession_def run.simps 1 2 3 Option.bind.simps)
qed

lemma orbTimes_replayed: "orbTimes ''a'' (voices replayedEngine) = [0, 1 / 2]"
  by (simp add: orbTimes_def replayedEngine_def sparseVoice_def laterVoice_def)

theorem grain_times_strictly_increasing_witness:
  "rndOk halves \<and> list_all eventOk sparseSession
   \<and> run halves sparseSession newEngine = Some replayedEngine
   \<and> orbTimes ''a'' (voices replayedEngine) = [0, 1 / 2]
   \<and> (\<forall>ident. sorted_wrt (<) (orbTimes ident (voices replayedEngine)))
   \<and> 0 < masterBpm (globalParams newEngine)
   \<and> 0 < fst (advanceCursor halves (globalParams newEngine) (glitchState newEngine)
                0.5 0 0)"
proof (intro conjI)
  show h1: "rndOk halves"
    by (rule rndOk_halves)
  show h2: "list_all eventOk sparseSession"
    by (simp add: sparseSession_def eventOk_def tempoOk_def sparseOrb_def)
  show "run halves sparseSession newEngine = Some replayedEngine"
    by (rule run_sparseSession)
  show "orbTimes ''a'' (voices replayedEngine) = [0, 1 / 2]"
    by (rule orbTimes_replayed)
  note ordered = grain_times_strictly_increasing [OF h1 h2]
  from ordered [THEN conjunct1] obtain e' where
    run: "run halves sparseSession newEngine = Some e'"
    and sorted: "\<forall>ident. sorted_wrt (<) (orbTimes ident (voices e'))"
    by blast
  have "e' = replayedEngine"
    using run by (simp only: run_sparseSession option.inject)
  with sorted show "\<forall>ident. sorted_wrt (<) (orbTimes ident (voices replayedEngine))"
    by blast
  show p: "0 < masterBpm (globalParams newEngine)"
    by (simp add: newEngine_def)
  show "0 < fst (advanceCursor halves (globalParams newEngine) (glitchState newEngine)
                0.5 0 0)"
    by (rule ordered [THEN conjunct2, rule_format, OF p])
qed

section \<open>A voice with the playback rate 0\<close>

lemma sin_three_halves_pi: "sin (3 * pi / 2) = - 1"
  using sin_3over2_pi by simp

lemma clampRate_zero: "clampRate 0 = 0"
  by (simp add: clampRate_def)

lemma grainStep_pitch:
  "grainStep halves pitchOrb (3 / 2) (newEngine\<lparr>orbs := [(''a'', pitchOrb)]\<rparr>)
     = Some (1.951, newEngine\<lparr>orbs := [(''a'', pitchOrb)], rng := 4, voices := [stalledVoice]\<rparr>)"
  by (simp add: grainStep_def scheduleGrain_def beatSyncPitch_def startVoice_def
      advanceCursor_def glitchRate_def glitchGrainSize_def freezePosition_def
      lfoPlaybackRate_def lfoPosition_def lfoGrainSize_def lfoVolume_def
      Let_def pitchOrb_def defaultParams_def demoBuffer_def newEngine_def halves_def
      stalledVoice_def wrapOffset_zero clampRate_zero freeRunInterval_zero sin_three_halves_pi)

lemma grainLoop_pitch:
  "grainLoop halves pitchOrb (3 / 2) (3 / 2, newEngine\<lparr>orbs := [(''a'', pitchOrb)]\<rparr>)
     = Some (1.951, newEngine\<lparr>orbs := [(''a'', pitchOrb)], rng := 4, voices := [stalledVoice]\<rparr>)"
  apply (subst grainLoop.simps)
  apply (simp add: scheduleAheadTime_def grainStep_pitch)
  apply (subst grainLoop.simps)
  apply (simp add: scheduleAheadTime_def)
  done

lemma scheduler_pitch:
  "scheduler halves (3 / 2) (newEngine\<lparr>orbs := [(''a'', pitchOrb)]\<rparr>) = Some stalledEngine"
proof -
  have g: "glitchUpdate halves (3 / 2) (newEngine\<lparr>orbs := [(''a'', pitchOrb)]\<rparr>)
      = newEngine\<lparr>orbs := [(''a'', pitchOrb)]\<rparr>"
    by (simp add: glitchUpdate_def Let_def newEngine_def)
  have c: "startCursor (newEngine\<lparr>orbs := [(''a'', pitchOrb)]\<rparr>) ''a'' (3 / 2) = 3 / 2"
    by (simp add: startCursor_def newEngine_def)
  have n: "nextGrainTime newEngine = Map.empty"
    by (simp add: newEngine_def)
  have "orbsForEach halves (3 / 2) [(''a'', pitchOrb)] (newEngine\<lparr>orbs := [(''a'', pitchOrb)]\<rparr>)
     = Some stalledEngine"
    by (simp add: c grainLoop_pitch stalledEngine_def n)
  then show ?thesis
    by (simp add: scheduler_def Let_def g)
qed

lemma run_pitch:
  "run halves [UpdateOrbs [pitchOrb], Tick (3 / 2)] newEngine = Some stalledEngine"
proof -
  have 1: "applyEvent halves (UpdateOrbs [pitchOrb]) newEngine
      = Some (newEngine\<lparr>orbs := [(''a'', pitchOrb)]\<rparr>)"
    by (simp add: updateOrbs_def pitchOrb_def)
  have 2: "applyEvent halves (Tick (3 / 2)) (newEngine\<lparr>orbs := [(''a'', pitchOrb)]\<rparr>)
      = Some stalledEngine"
    by (simp add: scheduler_pitch)
  show ?thesis
    by (simp only: run.simps 1 2 Option.bind.simps)
qed

text \<open>
  C2. The claim is that every voice gets a playback rate of magnitude in \<open>[0.05, 4]\<close>.
  A new engine, one orb with the LFO on the pitch at full depth and 0.5 Hz, a tick at time
  1.5: the LFO sample is \<open>sin (1.5 * 0.5 * 2 * pi) * 1 = -1\<close>, the rate before the
  clamp is \<open>1 + (-1) = 0\<close>, \<open>Math.sign(0)\<close> is 0, so the lower clamp sets
  \<open>0.05 * 0\<close>, and the voice is started with the playback rate 0.
\<close>

theorem scheduler_starts_voice_at_rate_zero:
  "run halves [UpdateOrbs [pitchOrb], Tick (3 / 2)] newEngine = Some stalledEngine
   \<and> map voiceRate (voices stalledEngine) = [0]"
proof (intro conjI)
  show "run halves [UpdateOrbs [pitchOrb], Tick (3 / 2)] newEngine = Some stalledEngine"
    by (rule run_pitch)
  show "map voiceRate (voices stalledEngine) = [0]"
    by (simp add: stalledEngine_def stalledVoice_def)
qed

section \<open>A STUTTER burst whose offset drifts\<close>

lemma wrapOffset_stutter: "wrapOffset (- (2 / 5)) 1 = 3 / 5" "wrapOffset (1 / 10) 1 = 1 / 10"
proof -
  have "\<lceil>- (2 / 5) :: real\<rceil> = 0" "\<lfloor>1 / 10 :: real\<rfloor> = 0"
    by linarith+
  then show "wrapOffset (- (2 / 5)) 1 = 3 / 5" "wrapOffset (1 / 10) 1 = 1 / 10"
    by (simp_all add: wrapOffset_def js_rem_def trunc_def Let_def)
qed

lemma glitchUpdate_armed: "glitchUpdate zeros (3 / 20) armedEngine = burstStart"
  by (simp add: glitchUpdate_def Let_def armedEngine_def burstStart_def chaosParams_def
      newEngine_def zeros_def numeral_3_eq_3)

lemma grainStep_stutter_first:
  "grainStep zeros positionOrb (3 / 20) burstStart = Some (1 / 5, afterFirstStutter)"
  by (simp add: grainStep_def scheduleGrain_def beatSyncPitch_def startVoice_def
      advanceCursor_def glitchRate_def glitchGrainSize_def freezePosition_def
      lfoPlaybackRate_def lfoPosition_def lfoGrainSize_def lfoVolume_def
      Let_def positionOrb_def defaultParams_def demoBuffer_def newEngine_def zeros_def
      armedEngine_def burstStart_def chaosParams_def firstStutterVoice_def afterFirstStutter_def
      wrapOffset_stutter clampRate_one sin_three_halves_pi)

lemma grainStep_stutter_second:
  "grainStep zeros positionOrb (1 / 5) afterFirstStutter = Some (1 / 4, afterSecondStutter)"
  by (simp add: grainStep_def scheduleGrain_def beatSyncPitch_def startVoice_def
      advanceCursor_def glitchRate_def glitchGrainSize_def freezePosition_def
      lfoPlaybackRate_def lfoPosition_def lfoGrainSize_def lfoVolume_def
      Let_def positionOrb_def defaultParams_def demoBuffer_def newEngine_def zeros_def
      armedEngine_def burstStart_def chaosParams_def secondStutterVoice_def
      afterFirstStutter_def afterSecondStutter_def
      wrapOffset_stutter clampRate_one)

lemma grainLoop_stutter:
  "grainLoop zeros positionOrb (3 / 20) (3 / 20, burstStart) = Some (1 / 4, afterSecondStutter)"
  apply (subst grainLoop.simps)
  apply (simp add: scheduleAheadTime_def grainStep_stutter_first)
  apply (subst grainLoop.simps)
  apply (simp add: scheduleAheadTime_def grainStep_stutter_second)
  apply (subst grainLoop.simps)
  apply (simp add: scheduleAheadTime_def)
  done

lemma scheduler_stutter: "scheduler zeros (3 / 20) armedEngine = Some stutterTickEngine"
proof -
  have c: "startCursor burstStart ''a'' (3 / 20) = 3 / 20"
    by (simp add: startCursor_def burstStart_def armedEngine_def newEngine_def)
  have o: "orbs burstStart = [(''a'', positionOrb)]"
    by (simp add: burstStart_def armedEngine_def)
  have n: "nextGrainTime afterSecondStutter = Map.empty"
    by (simp add: afterSecondStutter_def burstStart_def armedEngine_def newEngine_def)
  have "orbsForEach zeros (3 / 20) [(''a'', positionOrb)] burstStart = Some stutterTickEngine"
    by (simp add: c grainLoop_stutter stutterTickEngine_def n)
  then show ?thesis
    by (simp only: scheduler_def Let_def glitchUpdate_armed o)
qed

lemma run_stutter:
  "run zeros [UpdateGlobalParams chaosParams, UpdateOrbs [positionOrb], Tick (3 / 20)] newEngine
     = Some stutterTickEngine"
proof -
  have 1: "applyEvent zeros (UpdateGlobalParams chaosParams) newEngine
      = Some (updateGlobalParams chaosParams newEngine)"
    by simp
  have 2: "applyEvent zeros (UpdateOrbs [positionOrb]) (updateGlobalParams chaosParams newEngine)
      = Some armedEngine"
    by (simp add: updateGlobalParams_def updateOrbs_def chaosParams_def armedEngine_def
        newEngine_def positionOrb_def)
  have 3: "applyEvent zeros (Tick (3 / 20)) armedEngine = Some stutterTickEngine"
    by (simp add: scheduler_stutter)
  show ?thesis
    by (simp only: run.simps 1 2 3 Option.bind.simps)
qed

text \<open>
  C3. The claim is that every grain of a STUTTER burst after the first uses the offset
  recorded on the first. A new engine, the chaos parameter set to 1, one orb with the LFO
  on the scan position, a tick at time 0.15 with every draw 0: the tick enters a STUTTER
  burst and schedules its first two grains. The grain at 0.15 has the LFO sample \<open>-1\<close>;
  its offset before wrapping is \<open>(0.1 - 0.5) * 1 = -0.4\<close> and is recorded; being
  negative it reads as unset on the grain at 0.2, which records its own offset 0.1. The
  two voices of the burst start at the offsets 0.6 and 0.1.
\<close>

theorem stutter_offset_drifts:
  "run zeros [UpdateGlobalParams chaosParams, UpdateOrbs [positionOrb], Tick 0.15] newEngine
     = Some stutterTickEngine
   \<and> active (glitchState stutterTickEngine) \<and> mode (glitchState stutterTickEngine) = STUTTER
   \<and> map startTime (voices stutterTickEngine) = [0.15, 0.2]
   \<and> map startOffset (voices stutterTickEngine) = [0.6, 0.1]"
proof (intro conjI)
  show "run zeros [UpdateGlobalParams chaosParams, UpdateOrbs [positionOrb], Tick 0.15] newEngine
     = Some stutterTickEngine"
    using run_stutter by simp
  show "active (glitchState stutterTickEngine)" "mode (glitchState stutterTickEngine) = STUTTER"
    by (simp_all add: stutterTickEngine_def afterSecondStutter_def burstStart_def)
  show "map startTime (voices stutterTickEngine) = [0.15, 0.2]"
    by (simp add: stutterTickEngine_def afterSecondStutter_def firstStutterVoice_def
        secondStutterVoice_def)
  show "map startOffset (voices stutterTickEngine) = [0.6, 0.1]"
    by (simp add: stutterTickEngine_def afterSecondStutter_def firstStutterVoice_def
        secondStutterVoice_def)
qed

end
